theory Spec2Isabelle
  imports Complex_Main "HOL-Library.Word" "HOL-Library.Char_ord" "HOL-Library.List_Lexorder"
begin

section \<open>Errors (json\_exception.hpp and the standard exceptions the code raises)\<close>

text \<open>
  Every \<open>throw\<close> of the library is a value of \<open>error\<close>:
  \<^item> \<open>ParseError msg pos\<close>: \<open>parse_exception{msg, pos}\<close>;
  \<^item> \<open>TypeError msg\<close>: \<open>type_exception{msg}\<close>;
  \<^item> \<open>OutOfRange msg\<close>: \<open>std::out_of_range{msg}\<close>, thrown by the strict keyed lookup;
  \<^item> \<open>BadVariantAccess\<close>: \<open>std::bad_variant_access\<close>, thrown by an unchecked \<open>std::get\<close>;
  \<^item> \<open>UndefinedBehaviour\<close>: the C++ standard gives the operation no meaning (a
    floating-integral conversion whose truncated value does not fit, a vector index out of range);
  \<^item> \<open>NoReturn\<close>: a call that never returns, because it recurses without end;
  \<^item> \<open>OutOfFuel\<close>: the recursion bound of the parser model ran out (never the case for
    the bound \<open>parse\<close> supplies, see \<open>parse_never_out_of_fuel\<close>).
\<close>

datatype error =
    ParseError string nat
  | TypeError string
  | OutOfRange string
  | BadVariantAccess
  | UndefinedBehaviour
  | NoReturn
  | OutOfFuel

fun is_ParseError :: "error + 'a \<Rightarrow> bool" where
  "is_ParseError (Inl (ParseError m p)) = True"
| "is_ParseError r = False"

fun is_TypeError :: "error + 'a \<Rightarrow> bool" where
  "is_TypeError (Inl (TypeError m)) = True"
| "is_TypeError r = False"

text \<open>An outcome without a result that is a ParseError or a call that never returns.\<close>

fun no_result :: "error + 'a \<Rightarrow> bool" where
  "no_result (Inl (ParseError m p)) = True"
| "no_result (Inl NoReturn) = True"
| "no_result r = False"

section \<open>Binary64 floating point (number\_type = double)\<close>

text \<open>
  A \<open>double\<close> is its 64 bits: sign (bit 63), biased exponent (bits 52..62), fraction
  (bits 0..51). The fields are read arithmetically from the unsigned value of the word.
\<close>

datatype double = Double (bits: "64 word")

definition d_sign :: "double \<Rightarrow> bool" where
  "d_sign d = (unat (bits d) div 2 ^ 63 = 1)"

definition d_exp :: "double \<Rightarrow> nat" where
  "d_exp d = (unat (bits d) div 2 ^ 52) mod 2 ^ 11"

definition d_frac :: "double \<Rightarrow> nat" where
  "d_frac d = unat (bits d) mod 2 ^ 52"

definition d_isnan :: "double \<Rightarrow> bool" where
  "d_isnan d = (d_exp d = 2047 \<and> d_frac d \<noteq> 0)"

definition d_isinf :: "double \<Rightarrow> bool" where
  "d_isinf d = (d_exp d = 2047 \<and> d_frac d = 0)"

text \<open>
  Significand and binary exponent of a finite double; its magnitude \<open>d_abs\<close> is
  \<open>d_mant * 2 ^ (d_pow - 1075)\<close> and its value \<open>valof\<close> has the sign of the sign bit.
\<close>

definition d_mant :: "double \<Rightarrow> nat" where
  "d_mant d = (if d_exp d = 0 then d_frac d else 2 ^ 52 + d_frac d)"

definition d_pow :: "double \<Rightarrow> nat" where
  "d_pow d = (if d_exp d = 0 then 1 else d_exp d)"

definition d_abs :: "double \<Rightarrow> rat" where
  "d_abs d = of_nat (d_mant d) * 2 ^ d_pow d / 2 ^ 1075"

definition valof :: "double \<Rightarrow> rat" where
  "valof d = (if d_sign d then - d_abs d else d_abs d)"

text \<open>The magnitude of a finite double, truncated toward zero.\<close>

definition trunc_mag :: "double \<Rightarrow> nat" where
  "trunc_mag d = (if 1075 \<le> d_pow d then d_mant d * 2 ^ (d_pow d - 1075)
                  else d_mant d div 2 ^ (1075 - d_pow d))"

text \<open>
  \<open>static_cast<int64_t>(double)\<close>: truncation toward zero; undefined (\<open>None\<close>) when the
  truncated value cannot be represented, so for NaN, the infinities and magnitudes from 2^63.
\<close>

definition double_to_int64 :: "double \<Rightarrow> 64 word option" where
  "double_to_int64 d =
     (if d_exp d = 2047 then None
      else let t = (if d_sign d then - int (trunc_mag d) else int (trunc_mag d))
           in if - (2 ^ 63) \<le> t \<and> t < 2 ^ 63 then Some (word_of_int t) else None)"

fun bit_length :: "nat \<Rightarrow> nat" where
  "bit_length n = (if n = 0 then 0 else Suc (bit_length (n div 2)))"

declare bit_length.simps [simp del]

text \<open>Round a magnitude to 53 significant bits, to nearest, ties to even.\<close>

definition round53 :: "nat \<Rightarrow> nat" where
  "round53 a =
     (let k = bit_length a in
      if k \<le> 53 then a
      else let sh = k - 53; q = a div 2 ^ sh; r = a mod 2 ^ sh; half = 2 ^ (sh - 1)
           in (if half < r \<or> (r = half \<and> odd q) then q + 1 else q) * 2 ^ sh)"

text \<open>An integral magnitude that a double holds exactly: at most 53 significant bits.\<close>

definition representable :: "nat \<Rightarrow> bool" where
  "representable a = (bit_length a \<le> 53 \<or> a mod 2 ^ (bit_length a - 53) = 0)"

text \<open>The double of sign \<open>s\<close> and integral magnitude \<open>a\<close>, for \<open>a\<close> of at most 53 significant bits.\<close>

definition encode_int :: "bool \<Rightarrow> nat \<Rightarrow> double" where
  "encode_int s a =
     (let sgn = (if s then 2 ^ 63 else 0) in
      if a = 0 then Double (word_of_nat sgn)
      else let k = bit_length a;
               m = (if k \<le> 53 then a * 2 ^ (53 - k) else a div 2 ^ (k - 53))
           in Double (word_of_nat (sgn + (1022 + k) * 2 ^ 52 + (m - 2 ^ 52))))"

text \<open>\<open>static_cast<double>(int64_t)\<close>: the nearest double (exact up to 2^53).\<close>

definition int64_to_double :: "64 word \<Rightarrow> double" where
  "int64_to_double w = (let i = sint w in encode_int (i < 0) (round53 (nat \<bar>i\<bar>)))"

text \<open>The comparisons of IEEE 754: a NaN compares false with everything, the two zeros are equal.\<close>

definition d_le :: "double \<Rightarrow> double \<Rightarrow> bool" where
  "d_le a b =
     (\<not> d_isnan a \<and> \<not> d_isnan b \<and>
      (if d_isinf a then d_sign a \<or> (d_isinf b \<and> \<not> d_sign b)
       else if d_isinf b then \<not> d_sign b
       else valof a \<le> valof b))"

definition d_eq :: "double \<Rightarrow> double \<Rightarrow> bool" where
  "d_eq a b = (d_le a b \<and> d_le b a)"

section \<open>The value model (json\_value.hpp)\<close>

text \<open>
  \<open>value::variant_type\<close>: one constructor per alternative, in the order of the
  \<open>std::variant\<close>. An \<open>object_type\<close> is a \<open>std::map\<close> with \<open>std::less<>\<close>: its entries
  are kept as an association list in ascending key order, keys unique.
\<close>

datatype jvalue =
    JNull
  | JBoolean bool
  | JInteger "64 word"
  | JNumber double
  | JString string
  | JArray "jvalue list"
  | JObject "(string \<times> jvalue) list"

text \<open>
  The converting constructors \<open>value(null_type)\<close>, \<open>value(boolean_type)\<close>,
  \<open>value(integer_type)\<close>, \<open>value(number_type)\<close>, \<open>value(string_type)\<close>, \<open>value(array_type)\<close>
  and \<open>value(object_type)\<close> are the constructors of \<open>jvalue\<close>.

  \<open>value(std::initializer_list<value> init) : data_{array_type{init}}\<close>. The initializer
  \<open>array_type{init}\<close> is a list-initialization of a vector of values from a braced list
  with the one element \<open>init\<close>; the vector has an initializer-list constructor and \<open>init\<close>
  converts to a \<open>value\<close>, by this same constructor. So the constructor first calls itself
  on \<open>init\<close> and then stores the array of that one element. As a partial function, with
  \<open>None\<close> for a call that does not return, it is the least solution of its equation.
\<close>

partial_function (option) value_init_list :: "jvalue list \<Rightarrow> jvalue option" where
  "value_init_list init = Option.bind (value_init_list init) (\<lambda>element. Some (JArray [element]))"

text \<open>
  \<open>value{x}\<close> for one \<open>x\<close> of the type of an alternative. A class with an
  initializer-list constructor is list-initialized by that constructor whenever the
  elements of the braced list convert to its element type; \<open>x\<close> converts to a \<open>value\<close> by
  the converting constructor of its type. So \<open>value{x}\<close> is the initializer-list
  constructor on the list with the one element \<open>value(x)\<close>, not \<open>value(x)\<close> itself.
\<close>

definition braced :: "jvalue \<Rightarrow> error + jvalue" where
  "braced x = (case value_init_list [x] of None \<Rightarrow> Inl NoReturn | Some v \<Rightarrow> Inr v)"

text \<open>\<open>enum class value_type\<close>, in the order of its declaration.\<close>

datatype value_type = T_null | T_boolean | T_number | T_integer | T_string | T_array | T_object

text \<open>\<open>data_.index()\<close>: the position of the active alternative in \<open>variant_type\<close>.\<close>

fun index :: "jvalue \<Rightarrow> nat" where
  "index JNull = 0"
| "index (JBoolean b) = 1"
| "index (JInteger i) = 2"
| "index (JNumber d) = 3"
| "index (JString s) = 4"
| "index (JArray a) = 5"
| "index (JObject obj) = 6"

text \<open>\<open>static_cast<value_type>(n)\<close>: the enumerator of value \<open>n\<close>.\<close>

definition value_type_of :: "nat \<Rightarrow> value_type" where
  "value_type_of n = [T_null, T_boolean, T_number, T_integer, T_string, T_array, T_object] ! n"

definition type_of :: "jvalue \<Rightarrow> value_type" where
  "type_of v = value_type_of (index v)"

fun is_null :: "jvalue \<Rightarrow> bool" where
  "is_null JNull = True" | "is_null v = False"

fun is_boolean :: "jvalue \<Rightarrow> bool" where
  "is_boolean (JBoolean b) = True" | "is_boolean v = False"

fun is_number :: "jvalue \<Rightarrow> bool" where
  "is_number (JNumber d) = True" | "is_number v = False"

fun is_integer :: "jvalue \<Rightarrow> bool" where
  "is_integer (JInteger i) = True" | "is_integer v = False"

fun is_string :: "jvalue \<Rightarrow> bool" where
  "is_string (JString s) = True" | "is_string v = False"

fun is_array :: "jvalue \<Rightarrow> bool" where
  "is_array (JArray a) = True" | "is_array v = False"

fun is_object :: "jvalue \<Rightarrow> bool" where
  "is_object (JObject obj) = True" | "is_object v = False"

subsection \<open>Narrowing accessors\<close>

fun as_boolean :: "jvalue \<Rightarrow> error + bool" where
  "as_boolean (JBoolean b) = Inr b"
| "as_boolean v = Inl (TypeError ''Value is not a boolean'')"

fun as_integer :: "jvalue \<Rightarrow> error + 64 word" where
  "as_integer (JInteger i) = Inr i"
| "as_integer (JNumber d) =
     (case double_to_int64 d of None \<Rightarrow> Inl UndefinedBehaviour | Some i \<Rightarrow> Inr i)"
| "as_integer v = Inl (TypeError ''Value is not a number'')"

fun as_number :: "jvalue \<Rightarrow> error + double" where
  "as_number (JNumber d) = Inr d"
| "as_number (JInteger i) = Inr (int64_to_double i)"
| "as_number v = Inl (TypeError ''Value is not a number'')"

fun as_string :: "jvalue \<Rightarrow> error + string" where
  "as_string (JString s) = Inr s"
| "as_string v = Inl (TypeError ''Value is not a string'')"

fun as_array :: "jvalue \<Rightarrow> error + jvalue list" where
  "as_array (JArray a) = Inr a"
| "as_array v = Inl (TypeError ''Value is not an array'')"

fun as_object :: "jvalue \<Rightarrow> error + (string \<times> jvalue) list" where
  "as_object (JObject obj) = Inr obj"
| "as_object v = Inl (TypeError ''Value is not an object'')"

subsection \<open>Container operations\<close>

fun size_of :: "jvalue \<Rightarrow> error + nat" where
  "size_of (JArray a) = Inr (length a)"
| "size_of (JObject obj) = Inr (length obj)"
| "size_of v = Inl (TypeError ''Value is not an array or object'')"

fun empty_of :: "jvalue \<Rightarrow> error + bool" where
  "empty_of (JArray a) = Inr (a = [])"
| "empty_of (JObject obj) = Inr (obj = [])"
| "empty_of v = Inl (TypeError ''Value is not an array or object'')"

text \<open>\<open>push_back\<close> mutates the value: the result is the value afterwards.\<close>

fun push_back :: "jvalue \<Rightarrow> jvalue \<Rightarrow> error + jvalue" where
  "push_back (JArray a) val = Inr (JArray (a @ [val]))"
| "push_back v val = Inl (TypeError ''Value is not an array'')"

text \<open>
  \<open>operator[](size_t)\<close>: \<open>std::get<array_type>(data_)[index]\<close>, with no check of the tag
  (\<open>std::get\<close> throws \<open>std::bad_variant_access\<close>) and none of the index.
\<close>

fun index_pos :: "jvalue \<Rightarrow> nat \<Rightarrow> error + jvalue" where
  "index_pos (JArray a) i = (if i < length a then Inr (a ! i) else Inl UndefinedBehaviour)"
| "index_pos v i = Inl BadVariantAccess"

fun contains :: "jvalue \<Rightarrow> string \<Rightarrow> bool" where
  "contains (JObject obj) key = (map_of obj key \<noteq> None)"
| "contains v key = False"

text \<open>\<open>std::format("Key '{}' not found", key)\<close>.\<close>

definition key_not_found :: "string \<Rightarrow> string" where
  "key_not_found key = ''Key '' @ [CHR 0x27] @ key @ [CHR 0x27] @ '' not found''"

text \<open>\<open>at(key) const\<close>.\<close>

fun at_key :: "jvalue \<Rightarrow> string \<Rightarrow> error + jvalue" where
  "at_key (JObject obj) key =
     (case map_of obj key of
        None \<Rightarrow> Inl (OutOfRange (key_not_found key))
      | Some x \<Rightarrow> Inr x)"
| "at_key v key = Inl (TypeError ''Value is not an object'')"

text \<open>
  The non-const overload \<open>at(key)\<close>, in state-passing style: the outcome of the lookup and
  the value afterwards.
\<close>

fun at_key_mut :: "jvalue \<Rightarrow> string \<Rightarrow> (error + jvalue) \<times> jvalue" where
  "at_key_mut (JObject obj) key =
     (case map_of obj key of
        None \<Rightarrow> (Inl (OutOfRange (key_not_found key)), JObject obj)
      | Some x \<Rightarrow> (Inr x, JObject obj))"
| "at_key_mut v key = (Inl (TypeError ''Value is not an object''), v)"

text \<open>
  \<open>std::map::emplace\<close>: the pair is inserted at its place in key order; when the key is
  already present the map is left as it is.
\<close>

fun emplace :: "string \<Rightarrow> jvalue \<Rightarrow> (string \<times> jvalue) list \<Rightarrow> (string \<times> jvalue) list" where
  "emplace k v [] = [(k, v)]"
| "emplace k v ((k', v') # obj) =
     (if k < k' then (k, v) # (k', v') # obj
      else if k = k' then (k', v') # obj
      else (k', v') # emplace k v obj)"

text \<open>
  \<open>operator[](string_view)\<close>: \<open>std::map::operator[]\<close> inserts a default-constructed
  (null) value for a missing key; the result is the entry and the value afterwards.
\<close>

fun index_key :: "jvalue \<Rightarrow> string \<Rightarrow> error + (jvalue \<times> jvalue)" where
  "index_key (JObject obj) key =
     (let obj' = emplace key JNull obj
      in case map_of obj' key of
           None \<Rightarrow> Inl UndefinedBehaviour
         | Some x \<Rightarrow> Inr (x, JObject obj'))"
| "index_key v key = Inl (TypeError ''Value is not an object'')"

text \<open>
  The defaulted \<open>operator==\<close>: equal alternatives and equal payloads, doubles compared
  by the IEEE comparison.
\<close>

fun value_eq :: "jvalue \<Rightarrow> jvalue \<Rightarrow> bool"
and values_eq :: "jvalue list \<Rightarrow> jvalue list \<Rightarrow> bool"
and members_eq :: "(string \<times> jvalue) list \<Rightarrow> (string \<times> jvalue) list \<Rightarrow> bool" where
  "value_eq JNull JNull = True"
| "value_eq (JBoolean a) (JBoolean b) = (a = b)"
| "value_eq (JInteger a) (JInteger b) = (a = b)"
| "value_eq (JNumber a) (JNumber b) = d_eq a b"
| "value_eq (JString a) (JString b) = (a = b)"
| "value_eq (JArray a) (JArray b) = values_eq a b"
| "value_eq (JObject a) (JObject b) = members_eq a b"
| "value_eq v w = False"
| "values_eq [] [] = True"
| "values_eq (x # xs) (y # ys) = (value_eq x y \<and> values_eq xs ys)"
| "values_eq xs ys = False"
| "members_eq [] [] = True"
| "members_eq ((k, x) # xs) ((l, y) # ys) = (k = l \<and> value_eq x y \<and> members_eq xs ys)"
| "members_eq xs ys = False"

section \<open>The parser (json\_parser.hpp)\<close>

text \<open>
  The parser reads an immutable input \<open>s\<close> (\<open>input_\<close>) at a cursor \<open>p\<close> (\<open>position_\<close>);
  every function returns the cursor afterwards. \<open>std::isspace\<close> and \<open>std::isdigit\<close> are
  those of the "C" locale.
\<close>

definition isspace :: "char \<Rightarrow> bool" where
  "isspace c = (c = CHR '' '' \<or> c = CHR 0x09 \<or> c = CHR 0x0A \<or> c = CHR 0x0B \<or> c = CHR 0x0C \<or> c = CHR 0x0D)"

definition isdigit :: "char \<Rightarrow> bool" where
  "isdigit c = (48 \<le> (of_char c :: nat) \<and> (of_char c :: nat) \<le> 57)"

function skip_whitespace :: "string \<Rightarrow> nat \<Rightarrow> nat" where
  "skip_whitespace s p = (if p < length s \<and> isspace (s ! p) then skip_whitespace s (Suc p) else p)"
  by pat_completeness auto
termination
  by (relation "measure (\<lambda>(s, p). length s - p)") auto

declare skip_whitespace.simps [simp del]

definition peek :: "string \<Rightarrow> nat \<Rightarrow> char option" where
  "peek s p = (if length s \<le> p then None else Some (s ! p))"

text \<open>\<open>std::format("Expected '{}', got '{}'", expected, ch)\<close>.\<close>

definition expected_got :: "char \<Rightarrow> char \<Rightarrow> string" where
  "expected_got expected ch =
     ''Expected '' @ [CHR 0x27, expected, CHR 0x27] @ '', got '' @ [CHR 0x27, ch, CHR 0x27]"

text \<open>\<open>expect\<close>: \<open>consume\<close> one character and compare it.\<close>

definition expect :: "string \<Rightarrow> nat \<Rightarrow> char \<Rightarrow> error + nat" where
  "expect s p expected =
     (if length s \<le> p then Inl (ParseError ''Unexpected end of input'' p)
      else let ch = s ! p; p' = p + 1
           in if ch \<noteq> expected then Inl (ParseError (expected_got expected ch) (p' - 1))
              else Inr p')"

text \<open>\<open>input_.substr(position_, n)\<close>.\<close>

definition substr :: "string \<Rightarrow> nat \<Rightarrow> nat \<Rightarrow> string" where
  "substr s p n = take n (drop p s)"

text \<open>
  \<open>return value{x};\<close> with the cursor at \<open>p\<close>: every parsing function of the source
  returns its result through a braced initializer.
\<close>

definition return_braced :: "jvalue \<Rightarrow> nat \<Rightarrow> error + (jvalue \<times> nat)" where
  "return_braced x p = (case braced x of Inl e \<Rightarrow> Inl e | Inr v \<Rightarrow> Inr (v, p))"

definition parse_null :: "string \<Rightarrow> nat \<Rightarrow> error + (jvalue \<times> nat)" where
  "parse_null s p =
     (if length s < p + 4 \<or> substr s p 4 \<noteq> ''null''
      then Inl (ParseError ''Invalid null literal'' p)
      else return_braced JNull (p + 4))"

definition parse_boolean :: "string \<Rightarrow> nat \<Rightarrow> error + (jvalue \<times> nat)" where
  "parse_boolean s p =
     (if p + 4 \<le> length s \<and> substr s p 4 = ''true'' then return_braced (JBoolean True) (p + 4)
      else if p + 5 \<le> length s \<and> substr s p 5 = ''false'' then return_braced (JBoolean False) (p + 5)
      else Inl (ParseError ''Invalid boolean literal'' p))"

subsection \<open>Numbers\<close>

text \<open>\<open>while (peek() && std::isdigit(*peek())) ++position_\<close>.\<close>

function skip_digits :: "string \<Rightarrow> nat \<Rightarrow> nat" where
  "skip_digits s p = (if p < length s \<and> isdigit (s ! p) then skip_digits s (Suc p) else p)"
  by pat_completeness auto
termination
  by (relation "measure (\<lambda>(s, p). length s - p)") auto

declare skip_digits.simps [simp del]

text \<open>\<open>!peek() || !std::isdigit(*peek())\<close>.\<close>

definition no_digit :: "string \<Rightarrow> nat \<Rightarrow> bool" where
  "no_digit s p = (case peek s p of None \<Rightarrow> True | Some c \<Rightarrow> \<not> isdigit c)"

definition digits_val :: "string \<Rightarrow> nat" where
  "digits_val ds = foldl (\<lambda>a c. 10 * a + (of_char c - 48)) 0 ds"

text \<open>
  \<open>std::from_chars\<close> for \<open>int64_t\<close>, base 10: an optional minus sign and the longest run
  of digits; \<open>None\<close> when there is no digit (\<open>invalid_argument\<close>) or the value does not
  fit (\<open>result_out_of_range\<close>).
\<close>

definition from_chars_int64 :: "string \<Rightarrow> 64 word option" where
  "from_chars_int64 str =
     (let neg = (str \<noteq> [] \<and> hd str = CHR ''-'');
          ds = takeWhile isdigit (if neg then tl str else str)
      in if ds = [] then None
         else let n = int (digits_val ds); v = (if neg then - n else n)
              in if - (2 ^ 63) \<le> v \<and> v < 2 ^ 63 then Some (word_of_int v) else None)"

text \<open>
  \<open>std::from_chars\<close> for \<open>double\<close> is a routine of the standard library: the decimal
  number is read exactly and rounded to the nearest double, ties to even; \<open>None\<close>
  (\<open>result_out_of_range\<close>) when the result overflows, or is zero for a non-zero number.
\<close>

definition pow2 :: "int \<Rightarrow> rat" where
  "pow2 e = (if 0 \<le> e then 2 ^ nat e else 1 / 2 ^ nat (- e))"

definition pow10 :: "int \<Rightarrow> rat" where
  "pow10 e = (if 0 \<le> e then 10 ^ nat e else 1 / 10 ^ nat (- e))"

definition round_half_even :: "rat \<Rightarrow> nat" where
  "round_half_even x =
     (let f = \<lfloor>x\<rfloor>; r = x - of_int f
      in nat (if r < 1 / 2 then f else if 1 / 2 < r then f + 1 else if even f then f else f + 1))"

text \<open>\<open>floor (log2 q)\<close> for a positive rational.\<close>

definition floor_log2 :: "rat \<Rightarrow> int" where
  "floor_log2 q =
     (let (n, d) = quotient_of q;
          l = int (bit_length (nat n)) - int (bit_length (nat d))
      in if pow2 l \<le> q then l else l - 1)"

definition round_to_double :: "bool \<Rightarrow> rat \<Rightarrow> double option" where
  "round_to_double neg q =
     (let sgn = (if neg then 2 ^ 63 else (0::nat)) in
      if q = 0 then Some (Double (word_of_nat sgn))
      else let e0 = max (floor_log2 q - 52) (- 1074);
               m0 = round_half_even (q / pow2 e0);
               m = (if m0 = 2 ^ 53 then 2 ^ 52 else m0);
               e = (if m0 = 2 ^ 53 then e0 + 1 else e0)
           in if 971 < e then None
              else if m = 0 then None
              else Some (Double (word_of_nat
                     (sgn + (if m < 2 ^ 52 then 0 else nat (e + 1075)) * 2 ^ 52 + m mod 2 ^ 52))))"

definition from_chars_double :: "string \<Rightarrow> double option" where
  "from_chars_double str =
     (let neg = (str \<noteq> [] \<and> hd str = CHR ''-'');
          r0 = (if neg then tl str else str);
          ip = takeWhile isdigit r0;
          r1 = dropWhile isdigit r0;
          dot = (r1 \<noteq> [] \<and> hd r1 = CHR ''.'' \<and> tl r1 \<noteq> [] \<and> isdigit (hd (tl r1)));
          fp = (if dot then takeWhile isdigit (tl r1) else []);
          r2 = (if dot then dropWhile isdigit (tl r1) else r1);
          ex = (r2 \<noteq> [] \<and> (hd r2 = CHR ''e'' \<or> hd r2 = CHR ''E''));
          r3 = (if ex then tl r2 else []);
          eneg = (r3 \<noteq> [] \<and> hd r3 = CHR ''-'');
          r4 = (if r3 \<noteq> [] \<and> (hd r3 = CHR ''-'' \<or> hd r3 = CHR ''+'') then tl r3 else r3);
          ed = int (digits_val (takeWhile isdigit r4));
          e10 = (if eneg then - ed else ed) - int (length fp)
      in if ip = [] then None
         else round_to_double neg (of_nat (digits_val (ip @ fp)) * pow10 e10))"

text \<open>The optional fraction of a number: the cursor afterwards and \<open>has_decimal\<close>.\<close>

definition number_fraction :: "string \<Rightarrow> nat \<Rightarrow> error + (nat \<times> bool)" where
  "number_fraction s p =
     (if peek s p = Some (CHR ''.'') then
        (let p1 = p + 1
         in if no_digit s p1
            then Inl (ParseError (''Invalid number: expected digit after '' @ [CHR 0x27, CHR ''.'', CHR 0x27]) p1)
            else Inr (skip_digits s p1, True))
      else Inr (p, False))"

text \<open>The optional exponent of a number: the cursor afterwards and \<open>has_exponent\<close>.\<close>

definition number_exponent :: "string \<Rightarrow> nat \<Rightarrow> error + (nat \<times> bool)" where
  "number_exponent s p =
     (if peek s p = Some (CHR ''e'') \<or> peek s p = Some (CHR ''E'') then
        (let p1 = p + 1;
             p2 = (if peek s p1 = Some (CHR ''+'') \<or> peek s p1 = Some (CHR ''-'') then p1 + 1 else p1)
         in if no_digit s p2
            then Inl (ParseError ''Invalid number: expected digit in exponent'' p2)
            else Inr (skip_digits s p2, True))
      else Inr (p, False))"

definition parse_number :: "string \<Rightarrow> nat \<Rightarrow> error + (jvalue \<times> nat)" where
  "parse_number s start =
     (let p0 = (if peek s start = Some (CHR ''-'') then start + 1 else start)
      in if no_digit s p0 then Inl (ParseError ''Invalid number'' start)
         else let p1 = (if peek s p0 = Some (CHR ''0'') then p0 + 1 else skip_digits s p0)
              in case number_fraction s p1 of
                   Inl e \<Rightarrow> Inl e
                 | Inr (p2, has_decimal) \<Rightarrow>
                     (case number_exponent s p2 of
                        Inl e \<Rightarrow> Inl e
                      | Inr (p3, has_exponent) \<Rightarrow>
                          (let number_str = substr s start (p3 - start)
                           in if has_decimal \<or> has_exponent then
                                (case from_chars_double number_str of
                                   None \<Rightarrow> Inl (ParseError ''Failed to parse number'' start)
                                 | Some result \<Rightarrow> return_braced (JNumber result) p3)
                              else
                                (case from_chars_int64 number_str of
                                   None \<Rightarrow> Inl (ParseError ''Failed to parse integer'' start)
                                 | Some result \<Rightarrow> return_braced (JInteger result) p3))))"

subsection \<open>Strings\<close>

text \<open>The value of a hex digit, as the three comparisons of the loop compute it.\<close>

definition hex_digit :: "char \<Rightarrow> nat option" where
  "hex_digit hex =
     (let c = (of_char hex :: nat)
      in if 48 \<le> c \<and> c \<le> 57 then Some (c - 48)
         else if 97 \<le> c \<and> c \<le> 102 then Some (c - 97 + 10)
         else if 65 \<le> c \<and> c \<le> 70 then Some (c - 65 + 10)
         else None)"

text \<open>
  The loop \<open>for (int i = 0; i < 4; ++i)\<close> over the hex digits of a \<open>\uXXXX\<close> escape, \<open>n\<close>
  digits to go: each digit is read at the cursor, which advances by one; \<open>codepoint\<close> is a
  \<open>uint32_t\<close>.
\<close>

fun hex_loop :: "string \<Rightarrow> nat \<Rightarrow> nat \<Rightarrow> 32 word \<Rightarrow> error + 32 word" where
  "hex_loop s p 0 codepoint = Inr codepoint"
| "hex_loop s p (Suc n) codepoint =
     (let hex = s ! p; p' = p + 1
      in case hex_digit hex of
           None \<Rightarrow> Inl (ParseError ''Invalid hex digit in unicode escape'' (p' - 1))
         | Some h \<Rightarrow> hex_loop s p' n (or (push_bit 4 codepoint) (of_nat h)))"

text \<open>\<open>static_cast<char>\<close> of a 32-bit value: its low byte.\<close>

definition to_char :: "32 word \<Rightarrow> char" where
  "to_char w = char_of (unat w)"

definition encode_utf8 :: "32 word \<Rightarrow> string" where
  "encode_utf8 codepoint =
     (if codepoint \<le> 0x7F then [to_char codepoint]
      else if codepoint \<le> 0x7FF then
        [to_char (or 0xC0 (drop_bit 6 codepoint)), to_char (or 0x80 (and codepoint 0x3F))]
      else
        [to_char (or 0xE0 (drop_bit 12 codepoint)),
         to_char (or 0x80 (and (drop_bit 6 codepoint) 0x3F)),
         to_char (or 0x80 (and codepoint 0x3F))])"

text \<open>\<open>std::format("Invalid escape sequence '\\{}'", escaped)\<close>.\<close>

definition invalid_escape :: "char \<Rightarrow> string" where
  "invalid_escape escaped = ''Invalid escape sequence '' @ [CHR 0x27, CHR 0x5C, escaped, CHR 0x27]"

text \<open>The simple escapes of the \<open>switch\<close>; \<open>None\<close> for \<open>u\<close> and for the default case.\<close>

definition simple_escape :: "char \<Rightarrow> char option" where
  "simple_escape escaped =
     (if escaped = CHR 0x22 then Some (CHR 0x22)
      else if escaped = CHR 0x5C then Some (CHR 0x5C)
      else if escaped = CHR ''/'' then Some (CHR ''/'')
      else if escaped = CHR ''b'' then Some (CHR 0x08)
      else if escaped = CHR ''f'' then Some (CHR 0x0C)
      else if escaped = CHR ''n'' then Some (CHR 0x0A)
      else if escaped = CHR ''r'' then Some (CHR 0x0D)
      else if escaped = CHR ''t'' then Some (CHR 0x09)
      else None)"

text \<open>
  The \<open>while (true)\<close> loop of \<open>parse_string\<close>, after the opening quote. It is left by the
  \<open>break\<close> at the closing quote, with the local \<open>result\<close> and the cursor, or by a \<open>throw\<close>.
\<close>

function parse_string_loop :: "string \<Rightarrow> nat \<Rightarrow> string \<Rightarrow> error + (string \<times> nat)" where
  "parse_string_loop s p result =
     (if length s \<le> p then Inl (ParseError ''Unterminated string'' p)
      else let ch = s ! p; p1 = p + 1
           in if ch = CHR 0x22 then Inr (result, p1)
              else if ch = CHR 0x5C then
                (if length s \<le> p1 then Inl (ParseError ''Unterminated escape sequence'' p1)
                 else let escaped = s ! p1; p2 = p1 + 1
                      in case simple_escape escaped of
                           Some c \<Rightarrow> parse_string_loop s p2 (result @ [c])
                         | None \<Rightarrow>
                             if escaped = CHR ''u'' then
                               (if length s < p2 + 4 then Inl (ParseError ''Invalid unicode escape'' p2)
                                else case hex_loop s p2 4 0 of
                                       Inl e \<Rightarrow> Inl e
                                     | Inr codepoint \<Rightarrow>
                                         parse_string_loop s (p2 + 4) (result @ encode_utf8 codepoint))
                             else Inl (ParseError (invalid_escape escaped) (p2 - 1)))
              else if (of_char ch :: nat) < 0x20
                then Inl (ParseError ''Unescaped control character in string'' (p1 - 1))
              else parse_string_loop s p1 (result @ [ch]))"
  by pat_completeness auto
termination
  by (relation "measure (\<lambda>(s, p, r). length s - p)") auto

declare parse_string_loop.simps [simp del]

definition parse_string :: "string \<Rightarrow> nat \<Rightarrow> error + (jvalue \<times> nat)" where
  "parse_string s p =
     (case expect s p (CHR 0x22) of
        Inl e \<Rightarrow> Inl e
      | Inr p1 \<Rightarrow>
          (case parse_string_loop s p1 [] of
             Inl e \<Rightarrow> Inl e
           | Inr (result, p2) \<Rightarrow> return_braced (JString result) p2))"

subsection \<open>Values, arrays and objects\<close>

text \<open>\<open>std::format("Unexpected character '{}'", *ch)\<close>.\<close>

definition unexpected_char :: "char \<Rightarrow> string" where
  "unexpected_char ch = ''Unexpected character '' @ [CHR 0x27, ch, CHR 0x27]"

text \<open>\<open>std::format("Expected ',' or ']', got '{}'", *ch)\<close>, and the same for \<open>}\<close>.\<close>

definition expected_comma_or :: "char \<Rightarrow> char \<Rightarrow> string" where
  "expected_comma_or close ch =
     ''Expected '' @ [CHR 0x27, CHR '','', CHR 0x27] @ '' or '' @ [CHR 0x27, close, CHR 0x27]
       @ '', got '' @ [CHR 0x27, ch, CHR 0x27]"

text \<open>The \<open>switch (*ch)\<close> of \<open>parse_value\<close>: the case a character selects.\<close>

datatype dispatch = D_null | D_boolean | D_string | D_array | D_object | D_number | D_default

definition switch_on :: "char \<Rightarrow> dispatch" where
  "switch_on ch =
     (if ch = CHR ''n'' then D_null
      else if ch = CHR ''t'' \<or> ch = CHR ''f'' then D_boolean
      else if ch = CHR 0x22 then D_string
      else if ch = CHR ''['' then D_array
      else if ch = CHR ''{'' then D_object
      else if ch = CHR ''-'' \<or> isdigit ch then D_number
      else D_default)"

text \<open>
  The part of a container loop's body after its element: skip whitespace and look at the
  next character. \<open>Inl (Inl e)\<close>: a \<open>throw\<close>; \<open>Inl (Inr p)\<close>: the \<open>break\<close> on the closing
  character, with the cursor after it; \<open>Inr p\<close>: the next iteration starts at \<open>p\<close>.
\<close>

definition after_element ::
  "char \<Rightarrow> string \<Rightarrow> string \<Rightarrow> string \<Rightarrow> nat \<Rightarrow> (error + nat) + nat" where
  "after_element close unterminated trailing s p1 =
     (let p2 = skip_whitespace s p1
      in case peek s p2 of
           None \<Rightarrow> Inl (Inl (ParseError unterminated p2))
         | Some ch \<Rightarrow>
             if ch = close then Inl (Inr (p2 + 1))
             else if ch = CHR '','' then
               (let p3 = skip_whitespace s (p2 + 1)
                in if peek s p3 = Some close then Inl (Inl (ParseError trailing p3))
                   else Inr p3)
             else Inl (Inl (ParseError (expected_comma_or close ch) p2)))"

text \<open>
  The part of the object loop's body before its value: the key, the colon and the
  whitespace around them. The result is the key and the cursor at the value.
\<close>

definition object_key :: "string \<Rightarrow> nat \<Rightarrow> error + (string \<times> nat)" where
  "object_key s p0 =
     (let p = skip_whitespace s p0
      in if peek s p \<noteq> Some (CHR 0x22) then Inl (ParseError ''Expected string key in object'' p)
         else case parse_string s p of
                Inl e \<Rightarrow> Inl e
              | Inr (k, p1) \<Rightarrow>
                  (case as_string k of
                     Inl e \<Rightarrow> Inl e
                   | Inr key \<Rightarrow>
                       (case expect s (skip_whitespace s p1) (CHR '':'') of
                          Inl e \<Rightarrow> Inl e
                        | Inr p3 \<Rightarrow> Inr (key, skip_whitespace s p3))))"

text \<open>
  The mutual recursion of \<open>parse_value\<close>, \<open>parse_array\<close> and \<open>parse_object\<close>, with the two
  \<open>while (true)\<close> loops as functions of the cursor and the local \<open>result\<close> built so far; a
  loop is left by its \<open>break\<close> with \<open>result\<close> and the cursor, or by a \<open>throw\<close>. The first
  argument bounds the recursion: it decreases at every call of \<open>parse_value\<close> from a loop
  and at every iteration.
\<close>

function (sequential) parse_value :: "nat \<Rightarrow> string \<Rightarrow> nat \<Rightarrow> error + (jvalue \<times> nat)"
and parse_array :: "nat \<Rightarrow> string \<Rightarrow> nat \<Rightarrow> error + (jvalue \<times> nat)"
and parse_array_loop :: "nat \<Rightarrow> string \<Rightarrow> nat \<Rightarrow> jvalue list \<Rightarrow> error + (jvalue list \<times> nat)"
and parse_object :: "nat \<Rightarrow> string \<Rightarrow> nat \<Rightarrow> error + (jvalue \<times> nat)"
and parse_object_loop ::
  "nat \<Rightarrow> string \<Rightarrow> nat \<Rightarrow> (string \<times> jvalue) list \<Rightarrow> error + ((string \<times> jvalue) list \<times> nat)"
where
  "parse_value 0 s p0 = Inl OutOfFuel"
| "parse_value (Suc fuel) s p0 =
     (let p = skip_whitespace s p0
      in case peek s p of
           None \<Rightarrow> Inl (ParseError ''Unexpected end of input'' p)
         | Some ch \<Rightarrow>
             (case switch_on ch of
                D_null \<Rightarrow> parse_null s p
              | D_boolean \<Rightarrow> parse_boolean s p
              | D_string \<Rightarrow> parse_string s p
              | D_array \<Rightarrow> parse_array fuel s p
              | D_object \<Rightarrow> parse_object fuel s p
              | D_number \<Rightarrow> parse_number s p
              | D_default \<Rightarrow> Inl (ParseError (unexpected_char ch) p)))"
| "parse_array fuel s p =
     (case expect s p (CHR ''['') of
        Inl e \<Rightarrow> Inl e
      | Inr p1 \<Rightarrow>
          (let p2 = skip_whitespace s p1
           in if peek s p2 = Some (CHR '']'') then return_braced (JArray []) (p2 + 1)
              else case parse_array_loop fuel s p2 [] of
                     Inl e \<Rightarrow> Inl e
                   | Inr (result, p3) \<Rightarrow> return_braced (JArray result) p3))"
| "parse_array_loop 0 s p result = Inl OutOfFuel"
| "parse_array_loop (Suc fuel) s p result =
     (case parse_value fuel s p of
        Inl e \<Rightarrow> Inl e
      | Inr (v, p1) \<Rightarrow>
          (case after_element (CHR '']'') ''Unterminated array'' ''Trailing comma in array'' s p1 of
             Inl (Inl e) \<Rightarrow> Inl e
           | Inl (Inr p2) \<Rightarrow> Inr (result @ [v], p2)
           | Inr p3 \<Rightarrow> parse_array_loop fuel s p3 (result @ [v])))"
| "parse_object fuel s p =
     (case expect s p (CHR ''{'') of
        Inl e \<Rightarrow> Inl e
      | Inr p1 \<Rightarrow>
          (let p2 = skip_whitespace s p1
           in if peek s p2 = Some (CHR ''}'') then return_braced (JObject []) (p2 + 1)
              else case parse_object_loop fuel s p2 [] of
                     Inl e \<Rightarrow> Inl e
                   | Inr (result, p3) \<Rightarrow> return_braced (JObject result) p3))"
| "parse_object_loop 0 s p0 result = Inl OutOfFuel"
| "parse_object_loop (Suc fuel) s p0 result =
     (case object_key s p0 of
        Inl e \<Rightarrow> Inl e
      | Inr (key, p4) \<Rightarrow>
          (case parse_value fuel s p4 of
             Inl e \<Rightarrow> Inl e
           | Inr (val, p5) \<Rightarrow>
               (case after_element (CHR ''}'') ''Unterminated object'' ''Trailing comma in object''
                       s p5 of
                  Inl (Inl e) \<Rightarrow> Inl e
                | Inl (Inr p6) \<Rightarrow> Inr (emplace key val result, p6)
                | Inr p7 \<Rightarrow> parse_object_loop fuel s p7 (emplace key val result))))"
  by pat_completeness auto
termination
  by (relation "measure (\<lambda>x. case x of
         Inl (Inl (f, s, p)) \<Rightarrow> 3 * f
       | Inl (Inr (f, s, p)) \<Rightarrow> 3 * f + 2
       | Inr (Inl (f, s, p, r)) \<Rightarrow> 3 * f + 1
       | Inr (Inr (Inl (f, s, p))) \<Rightarrow> 3 * f + 2
       | Inr (Inr (Inr (f, s, p, r))) \<Rightarrow> 3 * f + 1)") auto

text \<open>
  \<open>parser::parse\<close> and \<open>jsonpp::parse\<close>. The recursion bound \<open>2 * length s + 2\<close> is never
  reached (\<open>parse_never_out_of_fuel\<close>).
\<close>

definition parse :: "string \<Rightarrow> error + jvalue" where
  "parse s =
     (case parse_value (2 * length s + 2) s (skip_whitespace s 0) of
        Inl e \<Rightarrow> Inl e
      | Inr (result, p1) \<Rightarrow>
          (let p2 = skip_whitespace s p1
           in if p2 < length s then Inl (ParseError ''Unexpected characters after JSON value'' p2)
              else Inr result))"

section \<open>The serializer (json\_serializer.hpp)\<close>

text \<open>\<open>oss << n\<close> for an unsigned magnitude and for an \<open>int64_t\<close>: plain decimal.\<close>

definition digit_char :: "nat \<Rightarrow> char" where
  "digit_char n = ''0123456789'' ! n"

function show_nat :: "nat \<Rightarrow> string" where
  "show_nat n = (if n < 10 then [digit_char n] else show_nat (n div 10) @ [digit_char (n mod 10)])"
  by pat_completeness auto
termination
  by (relation "measure id") auto

declare show_nat.simps [simp del]

definition show_int64 :: "64 word \<Rightarrow> string" where
  "show_int64 w = (if sint w < 0 then CHR ''-'' # show_nat (nat (- sint w)) else show_nat (nat (sint w)))"

text \<open>
  \<open>oss << std::setprecision(17) << num\<close> is a routine of the standard library
  (\<open>printf("%.17g")\<close>): the value rounded to 17 significant decimal digits, in fixed
  notation when the decimal exponent is in \<open>-4..16\<close> and in scientific notation
  otherwise, without trailing zeros.
\<close>

fun lead_shift :: "nat \<Rightarrow> rat \<Rightarrow> nat" where
  "lead_shift 0 a = 0"
| "lead_shift (Suc n) a = (if 1 \<le> a then 0 else Suc (lead_shift n (a * 10)))"

text \<open>\<open>floor (log10 a)\<close> for the magnitude of a finite non-zero double.\<close>

definition floor_log10 :: "rat \<Rightarrow> int" where
  "floor_log10 a = (if 1 \<le> a then int (length (show_nat (nat \<lfloor>a\<rfloor>))) - 1
                    else - int (lead_shift 400 a))"

definition strip_zeros :: "string \<Rightarrow> string" where
  "strip_zeros ds = rev (dropWhile (\<lambda>c. c = CHR ''0'') (rev ds))"

definition with_fraction :: "string \<Rightarrow> string \<Rightarrow> string" where
  "with_fraction ip fp = (let f = strip_zeros fp in if f = [] then ip else ip @ CHR ''.'' # f)"

definition show_exponent :: "int \<Rightarrow> string" where
  "show_exponent x =
     (let ds = show_nat (nat \<bar>x\<bar>)
      in CHR ''e'' # (if x < 0 then CHR ''-'' else CHR ''+'') # (if length ds < 2 then CHR ''0'' # ds else ds))"

definition format_g17 :: "double \<Rightarrow> string" where
  "format_g17 d =
     (let sgn = (if d_sign d then ''-'' else []) in
      if d_isnan d then sgn @ ''nan''
      else if d_isinf d then sgn @ ''inf''
      else if d_mant d = 0 then sgn @ ''0''
      else let a = \<bar>valof d\<bar>;
               x0 = floor_log10 a;
               n0 = round_half_even (a * pow10 (16 - x0));
               n = (if n0 = 10 ^ 17 then 10 ^ 16 else n0);
               x = (if n0 = 10 ^ 17 then x0 + 1 else x0);
               ds = show_nat n
           in sgn @
              (if x < - 4 \<or> 17 \<le> x then with_fraction (take 1 ds) (drop 1 ds) @ show_exponent x
               else if 0 \<le> x then with_fraction (take (nat x + 1) ds) (drop (nat x + 1) ds)
               else with_fraction ''0'' (replicate (nat (- x - 1)) (CHR ''0'') @ ds)))"

definition INT64_MIN :: "64 word" where
  "INT64_MIN = word_of_int (- (2 ^ 63))"

definition INT64_MAX :: "64 word" where
  "INT64_MAX = word_of_int (2 ^ 63 - 1)"

text \<open>
  \<open>serialize_number\<close>. The first operand of the condition converts \<open>num\<close> to \<open>int64_t\<close>,
  which is undefined when the truncation does not fit; the limits are converted to \<open>double\<close>
  for the comparisons.
\<close>

definition serialize_number :: "double \<Rightarrow> error + string" where
  "serialize_number num =
     (case double_to_int64 num of
        None \<Rightarrow> Inl UndefinedBehaviour
      | Some t \<Rightarrow>
          if d_eq num (int64_to_double t) \<and> d_le (int64_to_double INT64_MIN) num
               \<and> d_le num (int64_to_double INT64_MAX)
          then Inr (show_int64 t)
          else Inr (format_g17 num))"

definition hex_char :: "nat \<Rightarrow> char" where
  "hex_char n = ''0123456789abcdef'' ! n"

function show_hex :: "nat \<Rightarrow> string" where
  "show_hex n = (if n < 16 then [hex_char n] else show_hex (n div 16) @ [hex_char (n mod 16)])"
  by pat_completeness auto
termination
  by (relation "measure id") auto

declare show_hex.simps [simp del]

text \<open>\<open>std::hex << std::setfill('0') << std::setw(4) << n\<close>.\<close>

definition show_hex4 :: "nat \<Rightarrow> string" where
  "show_hex4 n = (let h = show_hex n in replicate (4 - length h) (CHR ''0'') @ h)"

text \<open>The body of the loop of \<open>serialize_string\<close>: what one character is written as.\<close>

definition escape_char :: "char \<Rightarrow> string" where
  "escape_char ch =
     (if ch = CHR 0x22 then [CHR 0x5C, CHR 0x22]
      else if ch = CHR 0x5C then [CHR 0x5C, CHR 0x5C]
      else if ch = CHR 0x08 then [CHR 0x5C, CHR ''b'']
      else if ch = CHR 0x0C then [CHR 0x5C, CHR ''f'']
      else if ch = CHR 0x0A then [CHR 0x5C, CHR ''n'']
      else if ch = CHR 0x0D then [CHR 0x5C, CHR ''r'']
      else if ch = CHR 0x09 then [CHR 0x5C, CHR ''t'']
      else if (of_char ch :: nat) < 0x20 then [CHR 0x5C, CHR ''u''] @ show_hex4 (of_char ch)
      else [ch])"

definition serialize_string :: "string \<Rightarrow> string" where
  "serialize_string str = CHR 0x22 # concat (map escape_char str) @ [CHR 0x22]"

definition write_indent :: "bool \<Rightarrow> nat \<Rightarrow> nat \<Rightarrow> string" where
  "write_indent pretty indent_size current_indent =
     (if pretty then replicate (current_indent * indent_size) (CHR '' '') else [])"

definition write_newline :: "bool \<Rightarrow> string" where
  "write_newline pretty = (if pretty then [CHR 0x0A] else [])"

definition write_space :: "bool \<Rightarrow> string" where
  "write_space pretty = (if pretty then [CHR '' ''] else [])"

text \<open>What separates an element of a range-for loop from the one before it.\<close>

definition separator :: "bool \<Rightarrow> bool \<Rightarrow> string" where
  "separator pretty first = (if \<not> first then CHR '','' # write_newline pretty else [])"

text \<open>
  \<open>serialize_value\<close>, \<open>serialize_array\<close> and \<open>serialize_object\<close>. The arguments are the
  serializer's \<open>pretty_\<close>, \<open>indent_size_\<close> and \<open>current_indent_\<close>; the result is the text
  written to the stream. The \<open>switch\<close> is on \<open>val.type()\<close> and each case reads the value
  through the accessor the source calls. The two range-for loops are \<open>serialize_elements\<close>
  and \<open>serialize_members\<close>, with the flag \<open>first\<close>; \<open>current_indent_\<close> is incremented before
  a loop and decremented after it, so a loop runs at \<open>current_indent + 1\<close>.
\<close>

function serialize_value :: "bool \<Rightarrow> nat \<Rightarrow> nat \<Rightarrow> jvalue \<Rightarrow> error + string"
and serialize_elements :: "bool \<Rightarrow> nat \<Rightarrow> nat \<Rightarrow> bool \<Rightarrow> jvalue list \<Rightarrow> error + string"
and serialize_members :: "bool \<Rightarrow> nat \<Rightarrow> nat \<Rightarrow> bool \<Rightarrow> (string \<times> jvalue) list \<Rightarrow> error + string"
where
  "serialize_value pretty isz cur val =
     (case type_of val of
        T_null \<Rightarrow> Inr ''null''
      | T_boolean \<Rightarrow>
          (case as_boolean val of
             Inl e \<Rightarrow> Inl e
           | Inr b \<Rightarrow> Inr (if b then ''true'' else ''false''))
      | T_integer \<Rightarrow>
          (case as_integer val of
             Inl e \<Rightarrow> Inl e
           | Inr i \<Rightarrow> Inr (show_int64 i))
      | T_number \<Rightarrow>
          (case as_number val of
             Inl e \<Rightarrow> Inl e
           | Inr d \<Rightarrow> serialize_number d)
      | T_string \<Rightarrow>
          (case as_string val of
             Inl e \<Rightarrow> Inl e
           | Inr str \<Rightarrow> Inr (serialize_string str))
      | T_array \<Rightarrow>
          (case as_array val of
             Inl e \<Rightarrow> Inl e
           | Inr arr \<Rightarrow>
               if arr \<noteq> [] then
                 (case serialize_elements pretty isz (cur + 1) True arr of
                    Inl e \<Rightarrow> Inl e
                  | Inr body \<Rightarrow>
                      Inr (''['' @ write_newline pretty @ body @ write_newline pretty
                             @ write_indent pretty isz cur @ '']''))
               else Inr ''[]'')
      | T_object \<Rightarrow>
          (case as_object val of
             Inl e \<Rightarrow> Inl e
           | Inr obj \<Rightarrow>
               if obj \<noteq> [] then
                 (case serialize_members pretty isz (cur + 1) True obj of
                    Inl e \<Rightarrow> Inl e
                  | Inr body \<Rightarrow>
                      Inr (''{'' @ write_newline pretty @ body @ write_newline pretty
                             @ write_indent pretty isz cur @ ''}''))
               else Inr ''{}''))"
| "serialize_elements pretty isz cur first [] = Inr []"
| "serialize_elements pretty isz cur first (element # rest) =
     (case serialize_value pretty isz cur element of
        Inl e \<Rightarrow> Inl e
      | Inr t \<Rightarrow>
          (case serialize_elements pretty isz cur False rest of
             Inl e \<Rightarrow> Inl e
           | Inr ts \<Rightarrow> Inr (separator pretty first @ write_indent pretty isz cur @ t @ ts)))"
| "serialize_members pretty isz cur first [] = Inr []"
| "serialize_members pretty isz cur first ((key, val) # rest) =
     (case serialize_value pretty isz cur val of
        Inl e \<Rightarrow> Inl e
      | Inr t \<Rightarrow>
          (case serialize_members pretty isz cur False rest of
             Inl e \<Rightarrow> Inl e
           | Inr ts \<Rightarrow>
               Inr (separator pretty first @ write_indent pretty isz cur @ serialize_string key
                      @ '':'' @ write_space pretty @ t @ ts)))"
  by pat_completeness auto
termination
  apply (relation "measure (\<lambda>x. case x of
         Inl (pr, isz, cur, v) \<Rightarrow> 2 * size v
       | Inr (Inl (pr, isz, cur, first, xs)) \<Rightarrow> 2 * size_list size xs + 1
       | Inr (Inr (pr, isz, cur, first, kvs)) \<Rightarrow> 2 * size_list (\<lambda>kv. size (snd kv)) kvs + 1)")
  apply auto
  subgoal for val b by (cases val) auto
  subgoal for val b by (cases val) (auto simp: size_list_conv_sum_list intro!: sum_list_mono le_imp_less_Suc)
  done

declare serialize_value.simps [simp del]

text \<open>\<open>jsonpp::to_string\<close>: a serializer with indent width 2, starting at depth 0.\<close>

definition to_string :: "jvalue \<Rightarrow> bool \<Rightarrow> error + string" where
  "to_string val pretty = serialize_value pretty 2 0 val"

section \<open>Examples of the conversions\<close>

lemma double_examples:
  "double_to_int64 (Double 0x3FF8000000000000) = Some 1"
  "int64_to_double 123 = Double 0x405EC00000000000"
  "valof (Double 0x3FF8000000000000) = 3 / 2"
  by (simp_all add: double_to_int64_def int64_to_double_def d_exp_def d_sign_def trunc_mag_def
      d_pow_def d_mant_def d_frac_def valof_def d_abs_def round53_def encode_int_def bit_length.simps)

section \<open>Conversions between \<open>int64_t\<close> and \<open>double\<close>\<close>

lemma bit_length_pos: "0 < n \<Longrightarrow> 0 < bit_length n"
  by (subst bit_length.simps) simp

lemma bit_length_bounds: "0 < n \<Longrightarrow> 2 ^ (bit_length n - 1) \<le> n \<and> n < 2 ^ bit_length n"
proof (induction n rule: bit_length.induct)
  case (1 n)
  show ?case
  proof (cases "n div 2 = 0")
    case True
    with 1(2) have "n = 1" by (simp add: div_eq_0_iff)
    then show ?thesis by (simp add: bit_length.simps)
  next
    case False
    then have pos: "0 < n div 2" by simp
    from 1(1)[OF _ pos] 1(2)
    have ih: "2 ^ (bit_length (n div 2) - 1) \<le> n div 2" "n div 2 < 2 ^ bit_length (n div 2)"
      by auto
    have bl: "bit_length n = Suc (bit_length (n div 2))"
      using 1(2) by (subst bit_length.simps) simp
    have p: "0 < bit_length (n div 2)" using pos by (rule bit_length_pos)
    have "(2::nat) ^ (bit_length (n div 2)) = 2 * 2 ^ (bit_length (n div 2) - 1)"
      using p by (cases "bit_length (n div 2)") auto
    then have "(2::nat) ^ (bit_length (n div 2)) \<le> 2 * (n div 2)" using ih(1) by simp
    then have lo: "(2::nat) ^ (bit_length (n div 2)) \<le> n" by linarith
    have hi: "n < 2 * 2 ^ bit_length (n div 2)" using ih(2) by linarith
    show ?thesis using lo hi by (simp add: bl)
  qed
qed

lemma bit_length_unique:
  assumes "0 < k" "2 ^ (k - 1) \<le> n" "n < 2 ^ k"
  shows "bit_length n = k"
proof -
  have n: "0 < n"
  proof (rule ccontr)
    assume "\<not> 0 < n"
    then have "n = 0" by simp
    with assms(2) show False by simp
  qed
  from bit_length_bounds[OF n] have b: "2 ^ (bit_length n - 1) \<le> n" "n < 2 ^ bit_length n" by auto
  have "2 ^ (k - 1) < (2::nat) ^ bit_length n" using assms(2) b(2) by linarith
  then have 1: "k - 1 < bit_length n" by (simp add: power_strict_increasing_iff)
  have "2 ^ (bit_length n - 1) < (2::nat) ^ k" using assms(3) b(1) by linarith
  then have 2: "bit_length n - 1 < k" by (simp add: power_strict_increasing_iff)
  show ?thesis using 1 2 assms(1) by linarith
qed

lemma sint_w: "- (2 ^ 63) \<le> t \<Longrightarrow> t < 2 ^ 63 \<Longrightarrow> sint (word_of_int t :: 64 word) = t"
  by (simp add: sint_sbintrunc' signed_take_bit_int_eq_self)

lemma unat_w: "n < 2 ^ 64 \<Longrightarrow> unat (word_of_nat n :: 64 word) = n"
  by (simp add: unat_of_nat)

lemma sint_range: "- (2 ^ 63) \<le> sint (w :: 64 word) \<and> sint w < 2 ^ 63"
  using sint_ge [of w] sint_lt [of w] by simp

lemma field_arith:
  fixes S e f P Q :: nat
  assumes "f < P" "e < Q"
  shows "(f + (S * Q + e) * P) mod P = f"
    and "((f + (S * Q + e) * P) div P) mod Q = e"
    and "(f + (S * Q + e) * P) div (P * Q) = S"
proof -
  have P: "0 < P" using assms(1) by simp
  have Q: "0 < Q" using assms(2) by simp
  show "(f + (S * Q + e) * P) mod P = f" using assms(1) by simp
  have d: "(f + (S * Q + e) * P) div P = S * Q + e" using assms(1) P by simp
  show "((f + (S * Q + e) * P) div P) mod Q = e" using assms(2) by (simp add: d)
  have "(f + (S * Q + e) * P) div (P * Q) = (f + (S * Q + e) * P) div P div Q"
    by (rule div_mult2_eq)
  also have "\<dots> = (S * Q + e) div Q" by (simp only: d)
  also have "\<dots> = S" using assms(2) Q by simp
  finally show "(f + (S * Q + e) * P) div (P * Q) = S" .
qed

text \<open>The fields of a double assembled from a sign, a biased exponent and a fraction.\<close>

lemma fields_of_bits:
  fixes s :: bool and e f :: nat
  assumes "e < 2 ^ 11" "f < 2 ^ 52"
  defines "d \<equiv> Double (word_of_nat ((if s then 2 ^ 63 else 0) + e * 2 ^ 52 + f))"
  shows "d_sign d = s" "d_exp d = e" "d_frac d = f"
proof -
  define S :: nat where "S = (if s then 1 else 0)"
  let ?n = "(if s then 2 ^ 63 else 0) + e * 2 ^ 52 + f"
  have n: "?n = f + (S * 2 ^ 11 + e) * 2 ^ 52" by (simp add: S_def)
  have "e \<le> 2047" using assms(1) by simp
  then have "?n < 2 ^ 64" using assms(2) by (simp split: if_splits)
  then have "unat (bits d) = ?n" unfolding d_def double.sel by (rule unat_w)
  then have u: "unat (bits d) = f + (S * 2 ^ 11 + e) * 2 ^ 52" by (simp only: n)
  have p: "(2::nat) ^ 63 = 2 ^ 52 * 2 ^ 11" by simp
  show "d_frac d = f" unfolding d_frac_def u by (rule field_arith(1)[OF assms(2) assms(1)])
  show "d_exp d = e" unfolding d_exp_def u by (rule field_arith(2)[OF assms(2) assms(1)])
  have "unat (bits d) div 2 ^ 63 = S" unfolding u p by (rule field_arith(3)[OF assms(2) assms(1)])
  then show "d_sign d = s" by (simp add: d_sign_def S_def)
qed

lemma bit_length_zero: "bit_length 0 = 0"
  by (simp add: bit_length.simps)

lemma bit_length_zero_iff: "bit_length n = 0 \<longleftrightarrow> n = 0"
  using bit_length_pos [of n] by (cases "n = 0") (simp_all add: bit_length_zero)

text \<open>
  The parts of \<open>round53\<close> for a magnitude of more than 53 bits: the quotient has exactly
  53 bits, so the rounded quotient lies between \<open>2 ^ 52\<close> and \<open>2 ^ 53\<close>.
\<close>

lemma round53_parts:
  assumes k: "53 < bit_length a"
  defines "sh \<equiv> bit_length a - 53"
  defines "q \<equiv> a div 2 ^ sh"
  shows "0 < sh" "bit_length a = 53 + sh" "2 ^ 52 \<le> q" "q < 2 ^ 53"
    "\<exists>q'. round53 a = q' * 2 ^ sh \<and> q \<le> q' \<and> q' \<le> q + 1
           \<and> (a mod 2 ^ sh = 0 \<longrightarrow> q' = q)"
proof -
  show sh: "0 < sh" using k by (simp add: sh_def)
  show kk: "bit_length a = 53 + sh" using k by (simp add: sh_def)
  have a: "0 < a" using k by (cases "a = 0") (simp_all add: bit_length_zero)
  from bit_length_bounds[OF a]
  have b: "2 ^ (52 + sh) \<le> a" "a < 2 ^ (53 + sh)" by (simp_all add: kk)
  have "2 ^ 52 * 2 ^ sh \<le> a" using b(1) by (simp add: power_add)
  then show "2 ^ 52 \<le> q" unfolding q_def by (simp add: less_eq_div_iff_mult_less_eq)
  have "a < 2 ^ 53 * 2 ^ sh" using b(2) by (simp add: power_add)
  then show "q < 2 ^ 53" unfolding q_def by (rule less_mult_imp_div_less)
  have half: "(0::nat) < 2 ^ (sh - 1)" by simp
  show "\<exists>q'. round53 a = q' * 2 ^ sh \<and> q \<le> q' \<and> q' \<le> q + 1 \<and> (a mod 2 ^ sh = 0 \<longrightarrow> q' = q)"
  proof (cases "2 ^ (sh - 1) < a mod 2 ^ sh \<or> (a mod 2 ^ sh = 2 ^ (sh - 1) \<and> odd q)")
    case True
    then have "round53 a = (q + 1) * 2 ^ sh"
      using k by (simp add: round53_def Let_def sh_def q_def)
    moreover have "a mod 2 ^ sh \<noteq> 0" using True half by auto
    ultimately show ?thesis by (intro exI[of _ "q + 1"]) simp
  next
    case False
    then have "round53 a = q * 2 ^ sh"
      using k by (simp add: round53_def Let_def sh_def q_def)
    then show ?thesis by (intro exI[of _ q]) simp
  qed
qed

lemma round53_small_bits: "bit_length a \<le> 53 \<Longrightarrow> round53 a = a"
  by (simp add: round53_def Let_def)

lemma round53_representable: "representable (round53 a)"
proof (cases "bit_length a \<le> 53")
  case True
  then show ?thesis by (simp add: round53_small_bits representable_def)
next
  case False
  then have k: "53 < bit_length a" by simp
  define sh where "sh = bit_length a - 53"
  define q where "q = a div 2 ^ sh"
  note parts = round53_parts[OF k, folded sh_def q_def]
  note sh = parts(1) and kk = parts(2) and q = parts(3,4)
  from parts(5) obtain q' where r: "round53 a = q' * 2 ^ sh" "q \<le> q'" "q' \<le> q + 1"
    by blast
  show ?thesis
  proof (cases "q' < 2 ^ 53")
    case True
    have lo: "2 ^ (53 + sh - 1) \<le> q' * 2 ^ sh"
    proof -
      have "(2::nat) ^ (53 + sh - 1) = 2 ^ 52 * 2 ^ sh" by (simp add: power_add)
      also have "\<dots> \<le> q' * 2 ^ sh" using q(1) r(2) by simp
      finally show ?thesis .
    qed
    have hi: "q' * 2 ^ sh < 2 ^ (53 + sh)"
    proof -
      have "q' * 2 ^ sh < 2 ^ 53 * 2 ^ sh" using True by simp
      then show ?thesis by (simp add: power_add)
    qed
    have "bit_length (q' * 2 ^ sh) = 53 + sh" by (rule bit_length_unique[OF _ lo hi]) simp
    then show ?thesis by (simp add: representable_def r(1))
  next
    case False
    then have q': "q' = 2 ^ 53" using q(2) r(3) by simp
    have e: "q' * 2 ^ sh = 2 ^ (53 + sh)" by (simp add: q' power_add)
    have "bit_length ((2::nat) ^ (53 + sh)) = Suc (53 + sh)"
      by (rule bit_length_unique) simp_all
    moreover have "(2::nat) ^ (53 + sh) mod 2 ^ (Suc (53 + sh) - 53) = 0"
    proof -
      have "(2::nat) ^ (53 + sh) = 2 ^ 52 * 2 ^ (Suc sh)" by (simp add: power_add)
      then show ?thesis by simp
    qed
    ultimately show ?thesis by (simp add: representable_def r(1) e)
  qed
qed

lemma round53_id: "representable a \<Longrightarrow> round53 a = a"
proof (cases "bit_length a \<le> 53")
  case True
  then show ?thesis by (rule round53_small_bits)
next
  case False
  assume rep: "representable a"
  from False have k: "53 < bit_length a" by simp
  then have m: "a mod 2 ^ (bit_length a - 53) = 0" using rep by (auto simp: representable_def)
  from round53_parts(5)[OF k] m
  have "round53 a = a div 2 ^ (bit_length a - 53) * 2 ^ (bit_length a - 53)" by auto
  also have "\<dots> = a" using m by (simp add: mod_0_imp_dvd)
  finally show ?thesis .
qed

lemma round53_idem: "round53 (round53 a) = round53 a"
  by (rule round53_id) (rule round53_representable)

lemma round53_pos: "0 < a \<Longrightarrow> 0 < round53 a"
proof (cases "bit_length a \<le> 53")
  case True
  assume "0 < a"
  then show ?thesis using True by (simp add: round53_small_bits)
next
  case False
  then have k: "53 < bit_length a" by simp
  from round53_parts(3,5)[OF k]
  obtain q' where "round53 a = q' * 2 ^ (bit_length a - 53)" "2 ^ 52 \<le> q'"
    by (meson order_trans)
  moreover have "(0::nat) < 2 ^ 52" by simp
  ultimately show ?thesis by (metis less_le_trans nat_0_less_mult_iff zero_less_numeral zero_less_power)
qed

lemma round53_zero: "round53 0 = 0"
  by (simp add: round53_def bit_length_zero)

lemma round53_le:
  assumes "a \<le> 2 ^ 63"
  shows "round53 a \<le> 2 ^ 63"
proof (cases "bit_length a \<le> 53")
  case True
  then show ?thesis using assms by (simp add: round53_small_bits)
next
  case False
  then have k: "53 < bit_length a" by simp
  define sh where "sh = bit_length a - 53"
  define q where "q = a div 2 ^ sh"
  note parts = round53_parts[OF k, folded sh_def q_def]
  note sh = parts(1) and kk = parts(2) and q = parts(3,4)
  from parts(5) obtain q' where r: "round53 a = q' * 2 ^ sh" "q \<le> q'" "q' \<le> q + 1"
    by blast
  have a: "0 < a" using k by (cases "a = 0") (simp_all add: bit_length_zero)
  show ?thesis
  proof (cases "a = 2 ^ 63")
    case True
    have bl: "bit_length a = 64" unfolding True by (rule bit_length_unique) simp_all
    have "a mod 2 ^ (bit_length a - 53) = 0" unfolding bl unfolding True by simp
    then have "representable a" unfolding representable_def by (rule disjI2)
    then have "round53 a = a" by (rule round53_id)
    then show ?thesis using assms by simp
  next
    case False
    then have lt: "a < 2 ^ 63" using assms by simp
    from bit_length_bounds[OF a] have "2 ^ (52 + sh) \<le> a" by (simp add: kk)
    then have "(2::nat) ^ (52 + sh) < 2 ^ 63" using lt by (rule le_less_trans)
    then have "52 + sh < 63" by (rule power_less_imp_less_exp[of 2, rotated]) simp
    then have "53 + sh \<le> 63" by simp
    then have p: "(2::nat) ^ (53 + sh) \<le> 2 ^ 63" by (rule power_increasing) simp_all
    have "q' \<le> 2 ^ 53" using q(2) r(3) by simp
    then have "q' * 2 ^ sh \<le> 2 ^ 53 * 2 ^ sh" by simp
    then have "q' * 2 ^ sh \<le> 2 ^ (53 + sh)" by (simp add: power_add)
    then have "q' * 2 ^ sh \<le> 2 ^ 63" using p by (rule le_trans)
    then show ?thesis by (simp only: r(1))
  qed
qed

lemma bit_length_le_64: "a \<le> 2 ^ 63 \<Longrightarrow> bit_length a \<le> 64"
proof (rule ccontr)
  assume a: "a \<le> 2 ^ 63" and "\<not> bit_length a \<le> 64"
  then have k: "64 \<le> bit_length a - 1" by simp
  then have pos: "0 < a" by (cases "a = 0") (simp_all add: bit_length_zero)
  have "(2::nat) ^ 64 \<le> 2 ^ (bit_length a - 1)" using k by (rule power_increasing) simp
  also have "\<dots> \<le> a" using bit_length_bounds[OF pos] by simp
  finally have "(2::nat) ^ 64 \<le> 2 ^ 63" using a by (rule le_trans)
  then show False by simp
qed

text \<open>The significand that \<open>encode_int\<close> stores for a representable magnitude.\<close>

lemma encode_int_significand:
  assumes a: "0 < a" and rep: "representable a"
  defines "k \<equiv> bit_length a"
  defines "m \<equiv> (if k \<le> 53 then a * 2 ^ (53 - k) else a div 2 ^ (k - 53))"
  shows "2 ^ 52 \<le> m" "m < 2 ^ 53" "m * 2 ^ k = a * 2 ^ 53"
    "(if 53 \<le> k then m * 2 ^ (k - 53) else m div 2 ^ (53 - k)) = a"
proof -
  have kpos: "0 < k" unfolding k_def using a by (rule bit_length_pos)
  from bit_length_bounds[OF a] have b: "2 ^ (k - 1) \<le> a" "a < 2 ^ k" by (simp_all add: k_def)
  have "2 ^ 52 \<le> m \<and> m < 2 ^ 53 \<and> m * 2 ^ k = a * 2 ^ 53
      \<and> (if 53 \<le> k then m * 2 ^ (k - 53) else m div 2 ^ (53 - k)) = a"
  proof (cases "k \<le> 53")
    case True
    then have m: "m = a * 2 ^ (53 - k)" by (simp add: m_def)
    have e1: "(2::nat) ^ 52 = 2 ^ (k - 1) * 2 ^ (53 - k)"
      using True kpos by (simp add: power_add [symmetric])
    have e2: "(2::nat) ^ 53 = 2 ^ k * 2 ^ (53 - k)"
      using True by (simp add: power_add [symmetric])
    have "2 ^ (k - 1) * 2 ^ (53 - k) \<le> a * 2 ^ (53 - k)" using b(1) by simp
    then have A: "2 ^ 52 \<le> m" by (simp only: e1 m)
    have "a * 2 ^ (53 - k) < 2 ^ k * 2 ^ (53 - k)" using b(2) by simp
    then have B: "m < 2 ^ 53" by (simp only: e2 m)
    have "m * 2 ^ k = a * (2 ^ k * 2 ^ (53 - k))" by (simp add: m mult_ac)
    then have C: "m * 2 ^ k = a * 2 ^ 53" by (simp only: e2)
    have D: "(if 53 \<le> k then m * 2 ^ (k - 53) else m div 2 ^ (53 - k)) = a"
      using True by (simp add: m)
    show ?thesis using A B C D by (intro conjI)
  next
    case False
    then have k53: "53 < bit_length a" by (simp add: k_def)
    have m: "m = a div 2 ^ (k - 53)" using False by (simp add: m_def)
    note parts = round53_parts[OF k53, folded k_def]
    have A: "2 ^ 52 \<le> m" using parts(3) by (simp add: m)
    have B: "m < 2 ^ 53" using parts(4) by (simp add: m)
    have "a mod 2 ^ (k - 53) = 0" using rep False by (simp add: representable_def k_def)
    then have d: "m * 2 ^ (k - 53) = a" by (simp add: m mod_0_imp_dvd)
    have "k = k - 53 + 53" using False by simp
    then have "(2::nat) ^ k = 2 ^ (k - 53 + 53)" by simp
    then have "(2::nat) ^ k = 2 ^ (k - 53) * 2 ^ 53" by (simp only: power_add)
    then have "m * 2 ^ k = (m * 2 ^ (k - 53)) * 2 ^ 53" by (simp add: mult_ac)
    then have C: "m * 2 ^ k = a * 2 ^ 53" by (simp only: d)
    have D: "(if 53 \<le> k then m * 2 ^ (k - 53) else m div 2 ^ (53 - k)) = a"
      using False d by simp
    show ?thesis using A B C D by (intro conjI)
  qed
  then show "2 ^ 52 \<le> m" "m < 2 ^ 53" "m * 2 ^ k = a * 2 ^ 53"
    "(if 53 \<le> k then m * 2 ^ (k - 53) else m div 2 ^ (53 - k)) = a"
    by blast+
qed

lemma encode_int_fields:
  assumes a: "0 < a" and rep: "representable a" and le: "a \<le> 2 ^ 63"
  shows "d_sign (encode_int s a) = s"
    and "d_exp (encode_int s a) = 1022 + bit_length a"
    and "d_mant (encode_int s a) * 2 ^ bit_length a = a * 2 ^ 53"
    and "trunc_mag (encode_int s a) = a"
proof -
  define k where "k = bit_length a"
  define m where "m = (if k \<le> 53 then a * 2 ^ (53 - k) else a div 2 ^ (k - 53))"
  note sig = encode_int_significand[OF a rep, folded k_def, folded m_def]
  have k64: "k \<le> 64" unfolding k_def using le by (rule bit_length_le_64)
  have e: "1022 + k < 2 ^ 11" using k64 by simp
  have f: "m - 2 ^ 52 < 2 ^ 52" using sig(2) by simp
  have enc: "encode_int s a
      = Double (word_of_nat ((if s then 2 ^ 63 else 0) + (1022 + k) * 2 ^ 52 + (m - 2 ^ 52)))"
    using a by (simp add: encode_int_def Let_def k_def m_def)
  note fl = fields_of_bits[OF e f, of s, folded enc]
  show "d_sign (encode_int s a) = s" by (rule fl(1))
  show ex: "d_exp (encode_int s a) = 1022 + bit_length a" using fl(2) by (simp add: k_def)
  have mant: "d_mant (encode_int s a) = m" using sig(1) by (simp add: d_mant_def fl(2) fl(3))
  show "d_mant (encode_int s a) * 2 ^ bit_length a = a * 2 ^ 53"
    using sig(3) by (simp add: mant k_def)
  have pw: "d_pow (encode_int s a) = 1022 + k" by (simp add: d_pow_def fl(2))
  have "trunc_mag (encode_int s a) = (if 53 \<le> k then m * 2 ^ (k - 53) else m div 2 ^ (53 - k))"
    by (simp add: trunc_mag_def pw mant)
  then show "trunc_mag (encode_int s a) = a" by (simp only: sig(4))
qed

lemma encode_int_zero_fields:
  "d_sign (encode_int s 0) = s" "d_exp (encode_int s 0) = 0" "d_mant (encode_int s 0) = 0"
  "trunc_mag (encode_int s 0) = 0"
proof -
  have enc: "encode_int s 0 = Double (word_of_nat ((if s then 2 ^ 63 else 0) + 0 * 2 ^ 52 + 0))"
    by (simp add: encode_int_def)
  have e: "(0::nat) < 2 ^ 11" and f: "(0::nat) < 2 ^ 52" by simp_all
  note fl = fields_of_bits[OF e f, of s, folded enc]
  show "d_sign (encode_int s 0) = s" by (rule fl(1))
  show "d_exp (encode_int s 0) = 0" by (rule fl(2))
  show m: "d_mant (encode_int s 0) = 0" by (simp add: d_mant_def fl(2) fl(3))
  show "trunc_mag (encode_int s 0) = 0" by (simp add: trunc_mag_def m d_pow_def fl(2))
qed

text \<open>The double that holds a representable magnitude is finite and has that value.\<close>

lemma encode_int_finite:
  assumes "representable a" "a \<le> 2 ^ 63"
  shows "d_exp (encode_int s a) \<noteq> 2047"
proof (cases "a = 0")
  case True
  then show ?thesis by (simp add: encode_int_zero_fields)
next
  case False
  then have a: "0 < a" by simp
  have "bit_length a \<le> 64" using assms(2) by (rule bit_length_le_64)
  then show ?thesis by (simp add: encode_int_fields(2)[OF a assms])
qed

lemma encode_int_trunc:
  assumes "representable a" "a \<le> 2 ^ 63"
  shows "trunc_mag (encode_int s a) = a"
proof (cases "a = 0")
  case True
  then show ?thesis by (simp add: encode_int_zero_fields)
next
  case False
  then have a: "0 < a" by simp
  show ?thesis by (rule encode_int_fields(4)[OF a assms])
qed

lemma encode_int_abs:
  assumes "representable a" "a \<le> 2 ^ 63"
  shows "d_abs (encode_int s a) = of_nat a"
proof (cases "a = 0")
  case True
  then show ?thesis by (simp add: d_abs_def encode_int_zero_fields)
next
  case False
  then have a: "0 < a" by simp
  define D where "D = encode_int s a"
  define k where "k = bit_length a"
  note fl = encode_int_fields[OF a assms, of s, folded D_def k_def]
  have pw: "d_pow D = 1022 + k" by (simp add: d_pow_def fl(2))
  have "(of_nat (d_mant D * 2 ^ k) :: rat) = of_nat (a * 2 ^ 53)" by (simp only: fl(3))
  then have r: "(of_nat (d_mant D) :: rat) * 2 ^ k = of_nat a * 2 ^ 53" by simp
  have "(of_nat (d_mant D) :: rat) * 2 ^ (1022 + k) = (of_nat (d_mant D) * 2 ^ k) * 2 ^ 1022"
    by (simp add: power_add)
  also have "\<dots> = of_nat a * (2 ^ 53 * 2 ^ 1022)" by (simp only: r mult.assoc)
  also have "(2::rat) ^ 53 * 2 ^ 1022 = 2 ^ 1075" by (simp only: power_add [symmetric]) simp
  finally have "(of_nat (d_mant D) :: rat) * 2 ^ (1022 + k) / 2 ^ 1075 = of_nat a" by simp
  then have "d_abs D = of_nat a" by (simp only: d_abs_def pw)
  then show ?thesis by (simp only: D_def)
qed

lemma encode_int_sign:
  assumes "representable a" "a \<le> 2 ^ 63"
  shows "d_sign (encode_int s a) = s"
proof (cases "a = 0")
  case True
  then show ?thesis by (simp add: encode_int_zero_fields)
next
  case False
  then have "0 < a" by simp
  then show ?thesis using assms by (rule encode_int_fields(1))
qed

lemma d_abs_nonneg: "0 \<le> d_abs d"
  unfolding d_abs_def by (intro divide_nonneg_nonneg mult_nonneg_nonneg) simp_all

lemma representable_2_63: "representable (2 ^ 63)"
proof -
  have bl: "bit_length ((2::nat) ^ 63) = 64" by (rule bit_length_unique) simp_all
  have "(2::nat) ^ 63 mod 2 ^ (bit_length ((2::nat) ^ 63) - 53) = 0" unfolding bl by simp
  then show ?thesis unfolding representable_def by (rule disjI2)
qed

lemma magnitude_le: "nat \<bar>sint (w :: 64 word)\<bar> \<le> 2 ^ 63"
proof -
  have "\<bar>sint w\<bar> \<le> 2 ^ 63" using sint_range [of w] by linarith
  then show ?thesis by (simp add: nat_le_iff)
qed

text \<open>The magnitude and the sign of a widened integer.\<close>

lemma int64_to_double_eq:
  "int64_to_double w = encode_int (sint w < 0) (round53 (nat \<bar>sint w\<bar>))"
  by (simp add: int64_to_double_def Let_def)

lemma int64_to_double_finite: "d_exp (int64_to_double w) \<noteq> 2047"
  unfolding int64_to_double_eq
  by (rule encode_int_finite[OF round53_representable round53_le[OF magnitude_le]])

lemma int64_to_double_abs:
  "d_abs (int64_to_double w) = of_nat (round53 (nat \<bar>sint w\<bar>))"
  unfolding int64_to_double_eq
  by (rule encode_int_abs[OF round53_representable round53_le[OF magnitude_le]])

lemma int64_to_double_sign: "d_sign (int64_to_double w) = (sint w < 0)"
  unfolding int64_to_double_eq
  by (rule encode_int_sign[OF round53_representable round53_le[OF magnitude_le]])

lemma int64_to_double_bounds:
  "- (2 ^ 63) \<le> valof (int64_to_double w)" "valof (int64_to_double w) \<le> 2 ^ 63"
proof -
  define x where "x = d_abs (int64_to_double w)"
  have "round53 (nat \<bar>sint w\<bar>) \<le> 2 ^ 63" by (rule round53_le[OF magnitude_le])
  then have "(of_nat (round53 (nat \<bar>sint w\<bar>)) :: rat) \<le> of_nat (2 ^ 63)"
    by (simp only: of_nat_le_iff)
  then have r: "x \<le> 2 ^ 63" by (simp add: x_def int64_to_double_abs)
  have z: "0 \<le> x" unfolding x_def by (rule d_abs_nonneg)
  have v: "valof (int64_to_double w) = (if d_sign (int64_to_double w) then - x else x)"
    by (simp only: valof_def x_def)
  show "- (2 ^ 63) \<le> valof (int64_to_double w)" using r z by (simp add: v)
  show "valof (int64_to_double w) \<le> 2 ^ 63" using r z by (simp add: v)
qed

lemma int64_to_double_MIN: "valof (int64_to_double INT64_MIN) = - (2 ^ 63)"
proof -
  have s: "sint INT64_MIN = - (2 ^ 63)" unfolding INT64_MIN_def by (rule sint_w) simp_all
  have "nat \<bar>sint INT64_MIN\<bar> = 2 ^ 63" by (simp add: s)
  then have "round53 (nat \<bar>sint INT64_MIN\<bar>) = 2 ^ 63"
    by (simp only: round53_id[OF representable_2_63])
  then have "d_abs (int64_to_double INT64_MIN) = 2 ^ 63" by (simp add: int64_to_double_abs)
  then show ?thesis by (simp add: valof_def int64_to_double_sign s)
qed

lemma round53_max: "round53 9223372036854775807 = 2 ^ 63"
proof -
  have bl: "bit_length 9223372036854775807 = 63" by (rule bit_length_unique) simp_all
  show ?thesis by (simp add: round53_def bl Let_def)
qed

lemma int64_to_double_MAX: "valof (int64_to_double INT64_MAX) = 2 ^ 63"
proof -
  have s: "sint INT64_MAX = 9223372036854775807" unfolding INT64_MAX_def
    using sint_w [of "2 ^ 63 - 1"] by simp
  have "nat \<bar>sint INT64_MAX\<bar> = 9223372036854775807" by (simp add: s)
  then have "round53 (nat \<bar>sint INT64_MAX\<bar>) = 2 ^ 63" by (simp only: round53_max)
  then have "d_abs (int64_to_double INT64_MAX) = 2 ^ 63" by (simp add: int64_to_double_abs)
  then show ?thesis by (simp add: valof_def int64_to_double_sign s)
qed

lemma d_le_finite:
  "d_exp a \<noteq> 2047 \<Longrightarrow> d_exp b \<noteq> 2047 \<Longrightarrow> d_le a b = (valof a \<le> valof b)"
  by (simp add: d_le_def d_isnan_def d_isinf_def)

text \<open>
  Converting a widened integer back: the rounded magnitude with the sign of the
  integer, undefined only when the magnitude rounds to \<open>2 ^ 63\<close> and the integer is positive.
\<close>

lemma double_to_int64_encode:
  assumes rep: "representable a" and le: "a \<le> 2 ^ 63"
  shows "double_to_int64 (encode_int s a) =
     (let t = (if s then - int a else int a)
      in if t < 2 ^ 63 then Some (word_of_int t) else None)"
proof -
  have fin: "d_exp (encode_int b a) \<noteq> 2047" for b by (rule encode_int_finite[OF rep le])
  have tr: "trunc_mag (encode_int b a) = a" for b by (rule encode_int_trunc[OF rep le])
  have sg: "d_sign (encode_int b a) = b" for b by (rule encode_int_sign[OF rep le])
  have lo: "- (2 ^ 63) \<le> - int a" "- (2 ^ 63) \<le> int a" using le by simp_all
  show ?thesis using lo by (simp add: double_to_int64_def fin tr sg Let_def)
qed

lemma double_to_int64_widened:
  "double_to_int64 (int64_to_double w) =
     (let t = (if sint w < 0 then - int (round53 (nat \<bar>sint w\<bar>))
               else int (round53 (nat \<bar>sint w\<bar>)))
      in if t < 2 ^ 63 then Some (word_of_int t) else None)"
  unfolding int64_to_double_eq
  by (rule double_to_int64_encode[OF round53_representable round53_le[OF magnitude_le]])

lemma int64_to_double_rounded:
  assumes "double_to_int64 (int64_to_double w) = Some t"
  shows "int64_to_double t = int64_to_double w"
proof -
  define a where "a = nat \<bar>sint w\<bar>"
  define a' where "a' = round53 a"
  define T where "T = (if sint w < 0 then - int a' else int a')"
  have le: "a' \<le> 2 ^ 63" unfolding a'_def a_def by (rule round53_le[OF magnitude_le])
  have "double_to_int64 (int64_to_double w) = (if T < 2 ^ 63 then Some (word_of_int T) else None)"
    by (simp only: double_to_int64_widened Let_def T_def a'_def a_def)
  with assms have T: "T < 2 ^ 63" and t: "t = word_of_int T"
    by (simp_all split: if_splits)
  have lo: "- (2 ^ 63) \<le> T" using le by (simp add: T_def)
  have st: "sint t = T" unfolding t using lo T by (rule sint_w)
  have pos: "sint w < 0 \<Longrightarrow> 0 < a'"
  proof -
    assume "sint w < 0"
    then have "0 < a" by (simp add: a_def)
    then show "0 < a'" unfolding a'_def by (rule round53_pos)
  qed
  have neg: "(T < 0) = (sint w < 0)" using pos by (auto simp: T_def)
  have mag: "nat \<bar>T\<bar> = a'" by (simp add: T_def)
  have "int64_to_double t = encode_int (T < 0) (round53 (nat \<bar>T\<bar>))"
    by (simp only: int64_to_double_eq st)
  also have "\<dots> = encode_int (sint w < 0) (round53 a')" by (simp only: neg mag)
  also have "\<dots> = encode_int (sint w < 0) a'" by (simp only: a'_def round53_idem)
  also have "\<dots> = int64_to_double w" by (simp only: int64_to_double_eq a'_def a_def)
  finally show ?thesis .
qed

text \<open>
  \<open>serialize_number\<close> on a widened integer never reaches the 17-digit branch: it is
  undefined, or writes the integer that the double converts to.
\<close>

lemma serialize_number_widened:
  "serialize_number (int64_to_double w) =
     (case double_to_int64 (int64_to_double w) of
        None \<Rightarrow> Inl UndefinedBehaviour
      | Some t \<Rightarrow> Inr (show_int64 t))"
proof (cases "double_to_int64 (int64_to_double w)")
  case None
  then show ?thesis by (simp add: serialize_number_def)
next
  case (Some t)
  have same: "int64_to_double t = int64_to_double w" using Some by (rule int64_to_double_rounded)
  have fin: "d_exp (int64_to_double w) \<noteq> 2047" by (rule int64_to_double_finite)
  have eq: "d_eq (int64_to_double w) (int64_to_double t)"
    by (simp add: same d_eq_def d_le_finite[OF fin fin])
  have lo: "d_le (int64_to_double INT64_MIN) (int64_to_double w)"
    using int64_to_double_bounds(1)[of w]
    by (simp add: d_le_finite[OF int64_to_double_finite fin] int64_to_double_MIN)
  have hi: "d_le (int64_to_double w) (int64_to_double INT64_MAX)"
    using int64_to_double_bounds(2)[of w]
    by (simp add: d_le_finite[OF fin int64_to_double_finite] int64_to_double_MAX)
  show ?thesis using eq lo hi by (simp add: serialize_number_def Some)
qed

text \<open>Widening is exact up to \<open>2 ^ 53\<close>.\<close>

lemma round53_exact:
  assumes "a \<le> 2 ^ 53"
  shows "round53 a = a"
proof (cases "a = 2 ^ 53")
  case True
  have bl: "bit_length ((2::nat) ^ 53) = 54" by (rule bit_length_unique) simp_all
  have "(2::nat) ^ 53 mod 2 ^ (bit_length ((2::nat) ^ 53) - 53) = 0" unfolding bl by simp
  then have "representable (2 ^ 53)" unfolding representable_def by (rule disjI2)
  then show ?thesis unfolding True by (rule round53_id)
next
  case False
  then have lt: "a < 2 ^ 53" using assms by simp
  have "bit_length a \<le> 53"
  proof (rule ccontr)
    assume "\<not> bit_length a \<le> 53"
    then have k: "53 \<le> bit_length a - 1" by simp
    then have pos: "0 < a" by (cases "a = 0") (simp_all add: bit_length_zero)
    have "(2::nat) ^ 53 \<le> 2 ^ (bit_length a - 1)" using k by (rule power_increasing) simp
    also have "\<dots> \<le> a" using bit_length_bounds[OF pos] by simp
    finally show False using lt by simp
  qed
  then show ?thesis by (rule round53_small_bits)
qed

lemma int64_to_double_exact:
  assumes "\<bar>sint w\<bar> \<le> 2 ^ 53"
  shows "valof (int64_to_double w) = of_int (sint w)"
proof -
  define i where "i = sint w"
  have "nat \<bar>i\<bar> \<le> 2 ^ 53" using assms by (simp add: i_def)
  then have "round53 (nat \<bar>i\<bar>) = nat \<bar>i\<bar>" by (rule round53_exact)
  then have "d_abs (int64_to_double w) = of_nat (nat \<bar>i\<bar>)"
    by (simp only: int64_to_double_abs i_def)
  then have a: "d_abs (int64_to_double w) = of_int \<bar>i\<bar>" by simp
  have "valof (int64_to_double w) = (if i < 0 then - of_int \<bar>i\<bar> else of_int \<bar>i\<bar>)"
    by (simp only: valof_def int64_to_double_sign a i_def)
  also have "\<dots> = of_int i" by simp
  finally show ?thesis by (simp only: i_def)
qed

text \<open>\<open>trunc_mag\<close> is the floor of the magnitude.\<close>

lemma scaled_floor:
  fixes m p P :: nat
  shows "\<lfloor>(of_nat m :: rat) * 2 ^ p / 2 ^ P\<rfloor>
           = int (if P \<le> p then m * 2 ^ (p - P) else m div 2 ^ (P - p))"
proof (cases "P \<le> p")
  case True
  then have "p = (p - P) + P" by simp
  then have "(2::rat) ^ p = 2 ^ (p - P) * 2 ^ P" by (metis power_add)
  then have "(of_nat m :: rat) * 2 ^ p / 2 ^ P = of_nat (m * 2 ^ (p - P))" by simp
  then have "\<lfloor>(of_nat m :: rat) * 2 ^ p / 2 ^ P\<rfloor> = int (m * 2 ^ (p - P))"
    by (simp only: floor_of_nat)
  then show ?thesis using True by simp
next
  case False
  then have "P = (P - p) + p" by simp
  then have "(2::rat) ^ P = 2 ^ (P - p) * 2 ^ p" by (metis power_add)
  then have "(of_nat m :: rat) * 2 ^ p / 2 ^ P = of_nat m / of_nat (2 ^ (P - p))" by simp
  then have "\<lfloor>(of_nat m :: rat) * 2 ^ p / 2 ^ P\<rfloor> = int (m div 2 ^ (P - p))"
    by (simp only: floor_divide_of_nat_eq)
  then show ?thesis using False by simp
qed

lemma trunc_mag_floor: "int (trunc_mag d) = \<lfloor>d_abs d\<rfloor>"
  unfolding d_abs_def trunc_mag_def by (rule scaled_floor [symmetric])

text \<open>A defined conversion to \<open>int64_t\<close> is the truncation toward zero of the value.\<close>

lemma double_to_int64_truncates:
  assumes "double_to_int64 d = Some t"
  shows "sint t = (if valof d < 0 then - \<lfloor>- valof d\<rfloor> else \<lfloor>valof d\<rfloor>)"
proof -
  define T where "T = (if d_sign d then - int (trunc_mag d) else int (trunc_mag d))"
  from assms have r: "- (2 ^ 63) \<le> T" "T < 2 ^ 63" and t: "t = word_of_int T"
    by (simp_all add: double_to_int64_def Let_def T_def split: if_splits)
  have st: "sint t = T" unfolding t using r by (rule sint_w)
  define x where "x = d_abs d"
  have nn: "0 \<le> x" unfolding x_def by (rule d_abs_nonneg)
  have fl: "int (trunc_mag d) = \<lfloor>x\<rfloor>" unfolding x_def by (rule trunc_mag_floor)
  have v: "valof d = (if d_sign d then - x else x)" by (simp only: valof_def x_def)
  have TT: "T = (if d_sign d then - \<lfloor>x\<rfloor> else \<lfloor>x\<rfloor>)" by (simp only: T_def fl)
  have "T = (if valof d < 0 then - \<lfloor>- valof d\<rfloor> else \<lfloor>valof d\<rfloor>)"
  proof (cases "d_sign d")
    case True
    show ?thesis
    proof (cases "x = 0")
      case z: True
      then show ?thesis using True by (simp add: v TT)
    next
      case False
      then have "0 < x" using nn by simp
      then show ?thesis using True by (simp add: v TT)
    qed
  next
    case False
    then show ?thesis using nn by (simp add: v TT)
  qed
  then show ?thesis by (simp only: st)
qed

lemma trunc_value:
  "(if d_sign d then - int (trunc_mag d) else int (trunc_mag d))
     = (if valof d < 0 then - \<lfloor>- valof d\<rfloor> else \<lfloor>valof d\<rfloor>)"
proof -
  define x where "x = d_abs d"
  have nn: "0 \<le> x" unfolding x_def by (rule d_abs_nonneg)
  have fl: "int (trunc_mag d) = \<lfloor>x\<rfloor>" unfolding x_def by (rule trunc_mag_floor)
  have v: "valof d = (if d_sign d then - x else x)" by (simp only: valof_def x_def)
  show ?thesis
  proof (cases "d_sign d")
    case True
    show ?thesis
    proof (cases "x = 0")
      case z: True
      then show ?thesis using True by (simp add: v fl)
    next
      case False
      then have "0 < x" using nn by simp
      then show ?thesis using True by (simp add: v fl)
    qed
  next
    case False
    then show ?thesis using nn by (simp add: v fl)
  qed
qed

text \<open>
  The conversion to \<open>int64_t\<close> is defined exactly for the finite doubles whose truncation
  toward zero lies between \<open>- 2 ^ 63\<close> and \<open>2 ^ 63 - 1\<close>.
\<close>

lemma double_to_int64_defined:
  "double_to_int64 d =
     (let T = (if valof d < 0 then - \<lfloor>- valof d\<rfloor> else \<lfloor>valof d\<rfloor>)
      in if d_isnan d \<or> d_isinf d \<or> T < - (2 ^ 63) \<or> 2 ^ 63 \<le> T then None
         else Some (word_of_int T))"
proof -
  have e: "d_isnan d \<or> d_isinf d \<longleftrightarrow> d_exp d = 2047"
    by (auto simp: d_isnan_def d_isinf_def)
  show ?thesis
    unfolding double_to_int64_def trunc_value Let_def
    using e by (auto simp: not_le not_less)
qed

section \<open>The braced initializer\<close>

text \<open>
  The initializer-list constructor never returns: a call returns only if the call it
  makes first, on the same list, returns. So no \<open>value{x}\<close> returns, and with it no
  \<open>return\<close> statement of the parser.
\<close>

lemma value_init_list_no_return: "value_init_list init = None"
proof -
  have "False" if "value_init_list init = Some y" for y
    by (rule value_init_list.raw_induct[where P = "\<lambda>init y. False", OF _ that])
      (auto split: bind_splits)
  then show ?thesis by (cases "value_init_list init") auto
qed

lemma braced_no_return [code]: "braced x = Inl NoReturn"
  by (simp add: braced_def value_init_list_no_return)

lemma return_braced_no_return: "return_braced x p = Inl NoReturn"
  by (simp add: return_braced_def braced_no_return)

lemma no_result_Inl: "no_result (Inl e :: error + 'a) \<Longrightarrow> no_result (Inl e :: error + 'b)"
  by (cases e) simp_all

lemma no_result_bind:
  "no_result r \<Longrightarrow> no_result (case r of Inl e \<Rightarrow> Inl e | Inr x \<Rightarrow> g x)"
  by (cases r) (auto intro: no_result_Inl)

lemma parse_null_no_result: "no_result (parse_null s p)"
  by (simp add: parse_null_def return_braced_no_return)

lemma parse_boolean_no_result: "no_result (parse_boolean s p)"
  by (simp add: parse_boolean_def return_braced_no_return)

lemma number_fraction_Inl: "number_fraction s p = Inl e \<Longrightarrow> no_result (Inl e :: error + 'a)"
  by (auto simp: number_fraction_def Let_def split: if_splits)

lemma number_exponent_Inl: "number_exponent s p = Inl e \<Longrightarrow> no_result (Inl e :: error + 'a)"
  by (auto simp: number_exponent_def Let_def split: if_splits)

lemma parse_number_no_result: "no_result (parse_number s p)"
proof -
  define p0 where "p0 = (if peek s p = Some (CHR ''-'') then p + 1 else p)"
  define p1 where "p1 = (if peek s p0 = Some (CHR ''0'') then p0 + 1 else skip_digits s p0)"
  show ?thesis
  proof (cases "no_digit s p0")
    case True
    then show ?thesis by (simp add: parse_number_def p0_def)
  next
    case nd: False
    show ?thesis
    proof (cases "number_fraction s p1")
      case (Inl e)
      then show ?thesis
        using nd number_fraction_Inl[OF Inl]
        by (simp add: parse_number_def Let_def flip: p0_def p1_def)
    next
      case fr: (Inr a)
      obtain p2 has_decimal where a: "a = (p2, has_decimal)" by (cases a)
      show ?thesis
      proof (cases "number_exponent s p2")
        case (Inl e)
        then show ?thesis
          using nd fr a number_exponent_Inl[OF Inl]
          by (simp add: parse_number_def Let_def flip: p0_def p1_def)
      next
        case ex: (Inr b)
        obtain p3 has_exponent where b: "b = (p3, has_exponent)" by (cases b)
        show ?thesis
          using nd fr a ex b
          by (simp add: parse_number_def Let_def return_braced_no_return
              flip: p0_def p1_def split: option.splits)
      qed
    qed
  qed
qed

lemma hex_loop_Inl: "hex_loop s p n cp = Inl e \<Longrightarrow> no_result (Inl e :: error + 'a)"
  by (induction n arbitrary: p cp) (auto simp: Let_def split: option.splits)

lemma parse_string_loop_Inl:
  "parse_string_loop s p acc = Inl e \<Longrightarrow> no_result (Inl e :: error + 'a)"
proof (induction "length s - p" arbitrary: p acc rule: less_induct)
  case less
  have ih: "no_result (Inl e :: error + 'a)"
    if "parse_string_loop s q acc' = Inl e" "p < q" "p < length s" for q acc'
    using less.hyps[of q acc'] that by simp
  have r: "no_result (Inl e :: error + 'a)" if "Inl (ParseError m q) = (Inl e :: error + (string \<times> nat))" for m q
    using that by auto
  show ?case
    using less.prems
    apply (subst (asm) parse_string_loop.simps)
    apply (simp add: Let_def split: if_splits option.splits sum.splits)
          apply (auto dest: hex_loop_Inl elim: ih)
    done
qed

lemma parse_string_no_result: "no_result (parse_string s p)"
  unfolding parse_string_def
  by (auto simp: expect_def Let_def return_braced_no_return
      split: sum.splits if_splits dest: parse_string_loop_Inl)

lemma object_key_no_result: "no_result (object_key s p)"
  unfolding object_key_def Let_def
  using parse_string_no_result[of s "skip_whitespace s p"]
  by (cases "parse_string s (skip_whitespace s p)") (auto intro: no_result_Inl)

lemma expect_Inl: "expect s p c = Inl e \<Longrightarrow> no_result (Inl e :: error + 'a)"
  by (auto simp: expect_def Let_def split: if_splits)

lemma expect_Inr: "expect s p c = Inr q \<Longrightarrow> q = p + 1 \<and> p < length s"
  by (auto simp: expect_def Let_def split: if_splits)

lemma skip_whitespace_ge: "p \<le> skip_whitespace s p"
proof (induction s p rule: skip_whitespace.induct)
  case (1 s p)
  show ?case
  proof (cases "p < length s \<and> isspace (s ! p)")
    case True
    then have "Suc p \<le> skip_whitespace s (Suc p)" by (rule "1.IH")
    then show ?thesis using True by (subst skip_whitespace.simps) simp
  next
    case False
    then show ?thesis by (subst skip_whitespace.simps) auto
  qed
qed

lemma parse_object_no_result: "2 \<le> f \<Longrightarrow> no_result (parse_object f s p)"
proof -
  assume "2 \<le> f"
  then obtain f' where f: "f = Suc f'" by (cases f) auto
  have l: "no_result (parse_object_loop f s q acc)" for q acc
    unfolding f using object_key_no_result[of s q]
    by (cases "object_key s q") (auto intro: no_result_Inl)
  show ?thesis
  proof (cases "expect s p (CHR ''{'')")
    case (Inl e)
    then show ?thesis using expect_Inl[OF Inl] by simp
  next
    case (Inr p1)
    show ?thesis
      using l[of "skip_whitespace s p1" "[]"]
      by (cases "parse_object_loop f s (skip_whitespace s p1) []")
        (auto simp: Inr Let_def return_braced_no_return intro: no_result_Inl)
  qed
qed

lemma parse_array_no_result:
  assumes "\<And>q. p < q \<Longrightarrow> no_result (parse_value f s q)"
  shows "no_result (parse_array (Suc f) s p)"
proof (cases "expect s p (CHR ''['')")
  case (Inl e)
  then show ?thesis using expect_Inl[OF Inl] by simp
next
  case (Inr p1)
  define p2 where "p2 = skip_whitespace s p1"
  have "p1 = p + 1" using expect_Inr[OF Inr] by simp
  then have "p < p2" using skip_whitespace_ge[of p1 s] by (simp add: p2_def)
  then have v: "no_result (parse_value f s p2)" by (rule assms)
  have l: "no_result (parse_array_loop (Suc f) s p2 [])"
    using v by (cases "parse_value f s p2") (auto intro: no_result_Inl)
  show ?thesis
    using l
    by (cases "parse_array_loop (Suc f) s p2 []")
      (auto simp: Inr Let_def return_braced_no_return intro: no_result_Inl simp flip: p2_def)
qed

text \<open>
  With a recursion bound of twice the remaining input and one, \<open>parse_value\<close> ends in a
  ParseError or in a call that never returns: never with a result, and never at the bound.
\<close>

lemma parse_value_no_result:
  "2 * (length s - p) + 1 \<le> f \<Longrightarrow> no_result (parse_value f s p)"
proof (induction f arbitrary: p rule: less_induct)
  case (less f)
  obtain f1 where f: "f = Suc f1" using less.prems by (cases f) auto
  define p' where "p' = skip_whitespace s p"
  have ge: "p \<le> p'" by (simp add: p'_def skip_whitespace_ge)
  show ?case
  proof (cases "peek s p'")
    case None
    then show ?thesis by (simp add: f Let_def flip: p'_def)
  next
    case (Some ch)
    then have lt: "p' < length s" by (auto simp: peek_def split: if_splits)
    then have "2 \<le> f1" using less.prems ge f by simp
    then obtain f2 where f1: "f1 = Suc f2" by (cases f1) auto
    have arr: "no_result (parse_array f1 s p')"
      unfolding f1
    proof (rule parse_array_no_result)
      fix q assume "p' < q"
      then have "2 * (length s - q) + 1 \<le> f2" using less.prems ge lt f f1 by simp
      moreover have "f2 < f" by (simp add: f f1)
      ultimately show "no_result (parse_value f2 s q)" by (rule less.IH[rotated])
    qed
    have obj: "no_result (parse_object f1 s p')"
      using \<open>2 \<le> f1\<close> by (rule parse_object_no_result)
    show ?thesis
      using arr obj
      by (cases "switch_on ch")
        (simp_all add: f Let_def Some parse_null_no_result parse_boolean_no_result
          parse_string_no_result parse_number_no_result flip: p'_def)
  qed
qed

lemma parse_no_result: "no_result (parse s)"
proof -
  have "no_result (parse_value (2 * length s + 2) s (skip_whitespace s 0))"
    by (rule parse_value_no_result) simp
  then show ?thesis
    unfolding parse_def by (rule no_result_bind)
qed

lemma parse_never_out_of_fuel: "parse s \<noteq> Inl OutOfFuel"
  using parse_no_result[of s] by auto

lemma parse_returns_nothing: "parse s \<noteq> Inr v"
  using parse_no_result[of s] by auto

section \<open>Claims about the value model\<close>

text \<open>
  C5. For an object-tagged value and a key absent from its mapping, the strict accessor
  \<open>at(key)\<close> fails with the key-not-found error, which is \<open>std::out_of_range\<close> carrying
  the message \<open>Key '<key>' not found\<close>: neither a ParseError nor a TypeError. The lookup
  leaves the value as it was (the non-const overload, in state-passing style, returns the
  same object), and \<open>contains\<close> is false for that key.
\<close>

theorem at_key_absent:
  assumes "map_of obj key = None"
  shows "at_key (JObject obj) key = Inl (OutOfRange (key_not_found key))
       \<and> \<not> is_ParseError (at_key (JObject obj) key)
       \<and> \<not> is_TypeError (at_key (JObject obj) key)
       \<and> at_key_mut (JObject obj) key = (Inl (OutOfRange (key_not_found key)), JObject obj)
       \<and> \<not> contains (JObject obj) key"
  using assms by simp

theorem at_key_absent_witness:
  "map_of [(''a'', JNull)] ''b'' = None
   \<and> at_key (JObject [(''a'', JNull)]) ''b'' = Inl (OutOfRange ''Key 'b' not found'')
   \<and> at_key_mut (JObject [(''a'', JNull)]) ''b''
        = (Inl (OutOfRange ''Key 'b' not found''), JObject [(''a'', JNull)])"
  using at_key_absent [of "[(''a'', JNull)]" "''b''"] by (simp add: key_not_found_def)

text \<open>
  C10. On a value whose active tag is not array, positional indexing \<open>operator[](size_t)\<close>
  does not fail with a TypeError: its unchecked \<open>std::get\<close> raises
  \<open>std::bad_variant_access\<close>. The checked operations \<open>push_back\<close> and \<open>as_array\<close> fail with a
  TypeError on the same value, and so do \<open>size\<close> and \<open>empty\<close> unless it is an object.
\<close>

theorem index_pos_not_array:
  assumes "\<not> is_array v"
  shows "index_pos v i = Inl BadVariantAccess
       \<and> \<not> is_TypeError (index_pos v i)
       \<and> push_back v x = Inl (TypeError ''Value is not an array'')
       \<and> as_array v = Inl (TypeError ''Value is not an array'')
       \<and> (\<not> is_object v \<longrightarrow>
            size_of v = Inl (TypeError ''Value is not an array or object'')
          \<and> empty_of v = Inl (TypeError ''Value is not an array or object''))"
  using assms by (cases v) simp_all

theorem index_pos_not_array_witness:
  "\<not> is_array (JString ''x'')
   \<and> index_pos (JString ''x'') 0 = Inl BadVariantAccess
   \<and> push_back (JString ''x'') JNull = Inl (TypeError ''Value is not an array'')
   \<and> size_of (JString ''x'') = Inl (TypeError ''Value is not an array or object'')"
  using index_pos_not_array [of "JString ''x''" 0 JNull] by simp

text \<open>
  C6, as the claim states it, at a number-tagged value whose payload has no truncation
  in \<open>int64_t\<close>: \<open>as_integer\<close> of a NaN, and of \<open>2 ^ 63\<close>, is the undefined conversion, and
  \<open>parse("123")\<close> does not return.
\<close>

theorem as_integer_undefined_at_nan:
  "d_isnan (Double 0x7FF8000000000000)
   \<and> as_integer (JNumber (Double 0x7FF8000000000000)) = Inl UndefinedBehaviour
   \<and> valof (Double 0x43E0000000000000) = 2 ^ 63
   \<and> as_integer (JNumber (Double 0x43E0000000000000)) = Inl UndefinedBehaviour
   \<and> parse ''123'' = Inl NoReturn"
proof -
  have n: "d_isnan (Double 0x7FF8000000000000)"
    by (simp add: d_isnan_def d_exp_def d_frac_def)
  have a: "as_integer (JNumber (Double 0x7FF8000000000000)) = Inl UndefinedBehaviour"
    by (simp add: double_to_int64_def d_exp_def)
  have v: "valof (Double 0x43E0000000000000) = 2 ^ 63"
    by (simp add: valof_def d_abs_def d_sign_def d_mant_def d_pow_def d_exp_def d_frac_def)
  have b: "as_integer (JNumber (Double 0x43E0000000000000)) = Inl UndefinedBehaviour"
    by (simp add: double_to_int64_def d_exp_def d_sign_def trunc_mag_def d_pow_def d_mant_def
        d_frac_def)
  have p: "parse ''123'' = Inl NoReturn" by code_simp
  show ?thesis using n a v b p by simp
qed

text \<open>
  C6, amended. \<open>as_integer\<close> returns the payload of an integer-tagged value; of a
  number-tagged value it returns the truncation toward zero of the payload when the
  payload is finite and that truncation lies between \<open>- 2 ^ 63\<close> and \<open>2 ^ 63 - 1\<close>, and
  is the undefined conversion otherwise (never a TypeError). \<open>as_number\<close> returns the payload
  of a number-tagged value and the widening of the payload of an integer-tagged value (exact
  up to \<open>2 ^ 53\<close>). Both fail with a TypeError for every other tag. No other accessor
  coerces: each succeeds on its own tag only. On the integer 123, \<open>as_integer\<close> is 123,
  \<open>as_number\<close> is 123.0 and \<open>as_string\<close> fails with a TypeError.
\<close>

theorem numeric_accessors_coerce_where_defined:
  "as_integer (JInteger i) = Inr i
   \<and> as_integer (JNumber d)
       = (let T = (if valof d < 0 then - \<lfloor>- valof d\<rfloor> else \<lfloor>valof d\<rfloor>)
          in if d_isnan d \<or> d_isinf d \<or> T < - (2 ^ 63) \<or> 2 ^ 63 \<le> T then Inl UndefinedBehaviour
             else Inr (word_of_int T))
   \<and> (as_integer (JNumber d) = Inr t \<longrightarrow>
         sint t = (if valof d < 0 then - \<lfloor>- valof d\<rfloor> else \<lfloor>valof d\<rfloor>))
   \<and> \<not> is_TypeError (as_integer (JNumber d))
   \<and> as_number (JNumber d) = Inr d
   \<and> as_number (JInteger i) = Inr (int64_to_double i)
   \<and> (\<bar>sint i\<bar> \<le> 2 ^ 53 \<longrightarrow> valof (int64_to_double i) = of_int (sint i))
   \<and> (\<not> is_integer v \<and> \<not> is_number v \<longrightarrow>
         as_integer v = Inl (TypeError ''Value is not a number'')
       \<and> as_number v = Inl (TypeError ''Value is not a number''))
   \<and> (as_boolean v = Inr b \<longleftrightarrow> v = JBoolean b)
   \<and> (as_string v = Inr s \<longleftrightarrow> v = JString s)
   \<and> (as_array v = Inr a \<longleftrightarrow> v = JArray a)
   \<and> (as_object v = Inr obj \<longleftrightarrow> v = JObject obj)
   \<and> as_integer (JInteger 123) = Inr 123
   \<and> as_number (JInteger 123) = Inr (Double 0x405EC00000000000)
   \<and> valof (Double 0x405EC00000000000) = 123
   \<and> as_string (JInteger 123) = Inl (TypeError ''Value is not a string'')"
proof -
  have dom: "as_integer (JNumber d)
       = (let T = (if valof d < 0 then - \<lfloor>- valof d\<rfloor> else \<lfloor>valof d\<rfloor>)
          in if d_isnan d \<or> d_isinf d \<or> T < - (2 ^ 63) \<or> 2 ^ 63 \<le> T then Inl UndefinedBehaviour
             else Inr (word_of_int T))"
    by (simp add: double_to_int64_defined Let_def)
  have trunc: "as_integer (JNumber d) = Inr t \<longrightarrow>
      sint t = (if valof d < 0 then - \<lfloor>- valof d\<rfloor> else \<lfloor>valof d\<rfloor>)"
    using double_to_int64_truncates[of d t] by (auto split: option.splits)
  have nt: "\<not> is_TypeError (as_integer (JNumber d))"
    by (simp split: option.splits)
  have widen: "\<bar>sint i\<bar> \<le> 2 ^ 53 \<longrightarrow> valof (int64_to_double i) = of_int (sint i)"
    using int64_to_double_exact by blast
  have others: "\<not> is_integer v \<and> \<not> is_number v \<longrightarrow>
         as_integer v = Inl (TypeError ''Value is not a number'')
       \<and> as_number v = Inl (TypeError ''Value is not a number'')"
    by (cases v) simp_all
  have b: "as_boolean v = Inr b \<longleftrightarrow> v = JBoolean b" by (cases v) auto
  have s: "as_string v = Inr s \<longleftrightarrow> v = JString s" by (cases v) auto
  have a: "as_array v = Inr a \<longleftrightarrow> v = JArray a" by (cases v) auto
  have obj: "as_object v = Inr obj \<longleftrightarrow> v = JObject obj" by (cases v) auto
  have n: "as_number (JInteger 123) = Inr (Double 0x405EC00000000000)"
    by (simp add: double_examples)
  have val: "valof (Double 0x405EC00000000000) = 123"
    using int64_to_double_exact [of 123] by (simp add: double_examples)
  have i: "as_integer (JInteger i) = Inr i" "as_number (JNumber d) = Inr d"
    "as_number (JInteger i) = Inr (int64_to_double i)" "as_integer (JInteger 123) = Inr 123"
    "as_string (JInteger 123) = Inl (TypeError ''Value is not a string'')"
    by simp_all
  show ?thesis
    by (intro conjI dom trunc nt widen others b s a obj n val i)
qed

theorem numeric_accessors_coerce_where_defined_witness:
  "valof (Double 0x3FF8000000000000) = 3 / 2
   \<and> as_integer (JNumber (Double 0x3FF8000000000000)) = Inr 1
   \<and> sint (1 :: 64 word) = \<lfloor>3 / 2 :: rat\<rfloor>
   \<and> \<bar>sint (123 :: 64 word)\<bar> \<le> 2 ^ 53
   \<and> valof (int64_to_double 123) = 123
   \<and> \<not> is_integer JNull \<and> \<not> is_number JNull
   \<and> as_integer JNull = Inl (TypeError ''Value is not a number'')
   \<and> as_number JNull = Inl (TypeError ''Value is not a number'')"
  using numeric_accessors_coerce_where_defined [of 123 "Double 0x3FF8000000000000" 1 JNull]
  by (simp add: double_examples)

section \<open>Claims about the dispatch of the serializer\<close>

text \<open>
  \<open>value::type()\<close> casts the index of the active alternative to \<open>value_type\<close>, but the
  enumeration lists \<open>number\<close> before \<open>integer\<close> while the variant lists \<open>integer_type\<close> before
  \<open>number_type\<close>: an integer-tagged value has type \<open>number\<close> and a number-tagged value has
  type \<open>integer\<close>. So \<open>serialize_value\<close> writes a double through \<open>as_integer\<close> (truncated),
  and an integer through \<open>as_number\<close> and \<open>serialize_number\<close>.
\<close>

lemma type_of_swapped:
  "type_of (JNumber d) = T_integer" "type_of (JInteger i) = T_number"
  by (simp_all add: type_of_def value_type_of_def)

lemma serialize_value_JNumber:
  "serialize_value pretty isz cur (JNumber d) =
     (case double_to_int64 d of None \<Rightarrow> Inl UndefinedBehaviour | Some t \<Rightarrow> Inr (show_int64 t))"
  by (simp add: serialize_value.simps type_of_swapped split: option.splits)

lemma serialize_value_JInteger:
  "serialize_value pretty isz cur (JInteger i) =
     (case double_to_int64 (int64_to_double i) of
        None \<Rightarrow> Inl UndefinedBehaviour
      | Some t \<Rightarrow> Inr (show_int64 t))"
  by (simp add: serialize_value.simps type_of_swapped serialize_number_widened)

lemma show_int64_1: "show_int64 1 = ''1''"
  by (simp add: show_int64_def show_nat.simps digit_char_def)

text \<open>
  C7. The claim: a number-tagged \<open>x\<close> is rendered as a plain decimal integer if and only
  if it is integral and fits 64 bits, and with 17 significant digits otherwise. The code
  never passes a number-tagged value to \<open>serialize_number\<close>: it writes
  \<open>static_cast<int64_t>(x)\<close>, so \<open>1.5\<close> is rendered as the plain integer \<open>1\<close>.
  \<open>serialize_number\<close> itself takes its 17-digit branch at \<open>1.5\<close>.
\<close>

theorem number_rendered_truncated:
  "serialize_value pretty isz cur (JNumber d) =
     (case double_to_int64 d of None \<Rightarrow> Inl UndefinedBehaviour | Some t \<Rightarrow> Inr (show_int64 t))
   \<and> valof (Double 0x3FF8000000000000) = 3 / 2
   \<and> to_string (JNumber (Double 0x3FF8000000000000)) True = Inr ''1''
   \<and> serialize_number (Double 0x3FF8000000000000) = Inr (format_g17 (Double 0x3FF8000000000000))"
proof -
  have r: "to_string (JNumber (Double 0x3FF8000000000000)) True = Inr ''1''"
    by (simp add: to_string_def serialize_value_JNumber double_examples show_int64_1)
  have "\<not> d_eq (Double 0x3FF8000000000000) (int64_to_double 1)"
    by (simp add: d_eq_def d_le_def d_isnan_def d_isinf_def d_exp_def d_frac_def valof_def d_abs_def
        d_sign_def d_mant_def d_pow_def int64_to_double_def round53_def encode_int_def
        bit_length.simps)
  then have n: "serialize_number (Double 0x3FF8000000000000)
      = Inr (format_g17 (Double 0x3FF8000000000000))"
    by (simp add: serialize_number_def double_examples)
  show ?thesis using r n by (simp add: serialize_value_JNumber double_examples)
qed

section \<open>Claims about string escapes\<close>

lemma hex_digit_lt: "hex_digit c = Some h \<Longrightarrow> h < 16"
  by (auto simp: hex_digit_def Let_def split: if_splits)

lemma small_word_bit:
  fixes h :: nat
  assumes "h < 16"
  shows "bit (of_nat h :: 32 word) n \<Longrightarrow> n < 4"
proof -
  assume b: "bit (of_nat h :: 32 word) n"
  have "take_bit 4 h = h" using assms by (simp add: take_bit_nat_eq_self)
  then have "(of_nat h :: 32 word) = of_nat (take_bit 4 h)" by simp
  also have "\<dots> = take_bit 4 (of_nat h)" by (simp add: of_nat_take_bit)
  finally have "bit (take_bit 4 (of_nat h :: 32 word)) n" using b by simp
  then show "n < 4" by (simp add: bit_take_bit_iff)
qed

lemma shift_or_digit:
  fixes x :: "32 word" and h :: nat
  assumes "h < 16"
  shows "or (push_bit 4 x) (of_nat h) = x * 16 + of_nat h"
proof -
  have "push_bit 4 x + of_nat h = or (push_bit 4 x) (of_nat h)"
  proof (rule disjunctive_add)
    fix n
    show "\<not> bit (push_bit 4 x) n \<or> \<not> bit (of_nat h :: 32 word) n"
      using small_word_bit[OF assms, of n] by (auto simp: bit_push_bit_iff)
  qed
  then show ?thesis by (simp add: push_bit_eq_mult)
qed

lemma hex_loop_step:
  "hex_digit (s ! p) = Some h \<Longrightarrow>
     hex_loop s p (Suc n) cp = hex_loop s (p + 1) n (or (push_bit 4 cp) (of_nat h))"
  by simp

text \<open>The four hex digits of an escape give the code unit \<open>a * 4096 + b * 256 + c * 16 + d\<close>.\<close>

lemma hex_loop_four:
  assumes "hex_digit (s ! q) = Some a" "hex_digit (s ! (q + 1)) = Some b"
    "hex_digit (s ! (q + 1 + 1)) = Some c" "hex_digit (s ! (q + 1 + 1 + 1)) = Some d"
  shows "hex_loop s q 4 0 = Inr (of_nat (a * 4096 + b * 256 + c * 16 + d))"
proof -
  have four: "(4::nat) = Suc (Suc (Suc (Suc 0)))" by simp
  have "hex_loop s q 4 0 = hex_loop s q (Suc (Suc (Suc (Suc 0)))) 0"
    by (simp only: four)
  also have "\<dots> = hex_loop s (q + 1) (Suc (Suc (Suc 0))) (or (push_bit 4 0) (of_nat a))"
    by (rule hex_loop_step[OF assms(1)])
  also have "\<dots> = hex_loop s (q + 1 + 1) (Suc (Suc 0))
      (or (push_bit 4 (or (push_bit 4 0) (of_nat a))) (of_nat b))"
    by (rule hex_loop_step[OF assms(2)])
  also have "\<dots> = hex_loop s (q + 1 + 1 + 1) (Suc 0)
      (or (push_bit 4 (or (push_bit 4 (or (push_bit 4 0) (of_nat a))) (of_nat b))) (of_nat c))"
    by (rule hex_loop_step[OF assms(3)])
  also have "\<dots> = hex_loop s (q + 1 + 1 + 1 + 1) 0
      (or (push_bit 4 (or (push_bit 4 (or (push_bit 4 (or (push_bit 4 0) (of_nat a))) (of_nat b)))
         (of_nat c))) (of_nat d))"
    by (rule hex_loop_step[OF assms(4)])
  also have "\<dots> = Inr (or (push_bit 4 (or (push_bit 4 (or (push_bit 4 (or (push_bit 4 0)
         (of_nat a))) (of_nat b))) (of_nat c))) (of_nat d))"
    by (simp only: hex_loop.simps)
  also have "or (push_bit 4 (or (push_bit 4 (or (push_bit 4 (or (push_bit 4 0)
         (of_nat a))) (of_nat b))) (of_nat c))) (of_nat d)
      = ((((0 * 16 + of_nat a) * 16 + of_nat b) * 16 + of_nat c) * 16 + (of_nat d :: 32 word))"
    by (simp only: shift_or_digit[OF hex_digit_lt[OF assms(1)]]
        shift_or_digit[OF hex_digit_lt[OF assms(2)]]
        shift_or_digit[OF hex_digit_lt[OF assms(3)]]
        shift_or_digit[OF hex_digit_lt[OF assms(4)]])
  also have "\<dots> = of_nat (a * 4096 + b * 256 + c * 16 + d)" by (simp add: algebra_simps)
  finally show ?thesis .
qed

lemma hex_loop_invalid:
  assumes "hex_digit (s ! (p + i)) = None" "i < n"
  shows "\<exists>q. hex_loop s p n cp = Inl (ParseError ''Invalid hex digit in unicode escape'' q)"
  using assms
proof (induction n arbitrary: p i cp)
  case 0
  then show ?case by simp
next
  case (Suc n)
  show ?case
  proof (cases "hex_digit (s ! p)")
    case None
    then show ?thesis by simp
  next
    case (Some h)
    then have "i \<noteq> 0" using Suc.prems(1) by (cases i) auto
    then obtain j where j: "i = Suc j" by (cases i) auto
    have "hex_digit (s ! (Suc p + j)) = None" using Suc.prems(1) j by simp
    moreover have "j < n" using Suc.prems(2) j by simp
    ultimately obtain q where
      "hex_loop s (Suc p) n (or (push_bit 4 cp) (of_nat h))
         = Inl (ParseError ''Invalid hex digit in unicode escape'' q)"
      using Suc.IH by blast
    then show ?thesis using Some by simp
  qed
qed

lemma simple_escape_u: "simple_escape (CHR ''u'') = None"
  by (simp add: simple_escape_def)

lemma or_push_bit_nat:
  fixes x a :: nat
  assumes "x < 2 ^ k"
  shows "or (push_bit k a) x = push_bit k a + x"
proof -
  have tb: "take_bit k x = x" using assms by (simp add: take_bit_nat_eq_self)
  have "\<not> bit (push_bit k a) n \<or> \<not> bit x n" for n
  proof (cases "n < k")
    case True
    then show ?thesis by (simp add: bit_push_bit_iff)
  next
    case False
    have "bit x n \<longleftrightarrow> bit (take_bit k x) n" by (simp add: tb)
    then show ?thesis using False by (simp add: bit_take_bit_iff)
  qed
  then show ?thesis by (rule disjunctive_add[symmetric])
qed

lemma or_lead_bits:
  fixes x :: nat
  shows "x < 64 \<Longrightarrow> or 192 x = 192 + x" "x < 64 \<Longrightarrow> or 128 x = 128 + x"
    "x < 32 \<Longrightarrow> or 224 x = 224 + x"
  using or_push_bit_nat[of x 6 3] or_push_bit_nat[of x 6 2] or_push_bit_nat[of x 5 7]
  by (simp_all add: push_bit_eq_mult)

lemma and_63: "and (x :: nat) 63 = x mod 64"
proof -
  have "and x 63 = take_bit 6 x" by (simp add: take_bit_eq_mask mask_eq_exp_minus_1)
  then show ?thesis by (simp add: take_bit_eq_mod)
qed

text \<open>
  The bytes that \<open>encode_utf8\<close> appends for a 16-bit code unit are its UTF-8 encoding:
  \<open>0xxxxxxx\<close> up to \<open>0x7F\<close>, \<open>110xxxxx 10xxxxxx\<close> up to \<open>0x7FF\<close> and
  \<open>1110xxxx 10xxxxxx 10xxxxxx\<close> beyond.
\<close>

lemma encode_utf8_bytes:
  assumes "n < 65536"
  shows "encode_utf8 (of_nat n) =
     (if n \<le> 0x7F then [char_of n]
      else if n \<le> 0x7FF then [char_of (0xC0 + n div 64), char_of (0x80 + n mod 64)]
      else [char_of (0xE0 + n div 4096), char_of (0x80 + n div 64 mod 64), char_of (0x80 + n mod 64)])"
proof -
  define cp :: "32 word" where "cp = of_nat n"
  have u: "unat cp = n" using assms by (simp add: cp_def unat_of_nat)
  have c1: "cp \<le> 0x7F \<longleftrightarrow> n \<le> 0x7F" by (simp add: word_le_nat_alt u)
  have c2: "cp \<le> 0x7FF \<longleftrightarrow> n \<le> 0x7FF" by (simp add: word_le_nat_alt u)
  have b0: "unat (and cp 0x3F) = n mod 64"
    by (simp add: unsigned_and_eq u and_63)
  have b1: "unat (drop_bit 6 cp) = n div 64"
    by (simp add: drop_bit_eq_div unat_div u)
  have b2: "unat (and (drop_bit 6 cp) 0x3F) = n div 64 mod 64"
    by (simp add: unsigned_and_eq b1 and_63)
  have b3: "unat (drop_bit 12 cp) = n div 4096"
    by (simp add: drop_bit_eq_div unat_div u)
  have t0: "to_char (or 0x80 (and cp 0x3F)) = char_of (0x80 + n mod 64)"
    by (simp add: to_char_def unsigned_or_eq b0 or_lead_bits)
  have t1: "to_char (or 0xC0 (drop_bit 6 cp)) = char_of (0xC0 + n div 64)" if "n \<le> 0x7FF"
    using that by (simp add: to_char_def unsigned_or_eq b1 or_lead_bits)
  have t2: "to_char (or 0x80 (and (drop_bit 6 cp) 0x3F)) = char_of (0x80 + n div 64 mod 64)"
    by (simp add: to_char_def unsigned_or_eq b2 or_lead_bits)
  have t3: "to_char (or 0xE0 (drop_bit 12 cp)) = char_of (0xE0 + n div 4096)"
    using assms by (simp add: to_char_def unsigned_or_eq b3 or_lead_bits)
  have t4: "to_char cp = char_of n" by (simp add: to_char_def u)
  show ?thesis
    unfolding cp_def[symmetric] encode_utf8_def c1 c2
    using t0 t1 t2 t3 t4 by simp
qed

text \<open>
  C9. The claim: each \<open>\uXXXX\<close> escape of a string token is decoded on its own to the
  UTF-8 encoding of its code unit, and \<open>parse\<close> of the token \<open>"A"\<close> is the string
  \<open>A\<close>. The loop of \<open>parse_string\<close> does decode that way: an escape with four hex digits (of
  either case) takes six characters and appends the one, two or three bytes of the UTF-8
  encoding of its own code unit to the local \<open>result\<close>, whatever precedes or follows it, a
  character that is not a hex digit among the four is a ParseError, and the two escapes of
  a surrogate pair give three bytes each. At the closing quote of \<open>"A"\<close> the local
  \<open>result\<close> is \<open>A\<close>; but \<open>return value{std::move(result)};\<close> does not return, so \<open>parse\<close>
  yields no string.
\<close>

theorem unicode_escape_decoded_never_returned:
  "(p + 6 \<le> length s \<and> s ! p = CHR 0x5C \<and> s ! (p + 1) = CHR ''u''
      \<and> hex_digit (s ! (p + 2)) = Some a \<and> hex_digit (s ! (p + 3)) = Some b
      \<and> hex_digit (s ! (p + 4)) = Some c \<and> hex_digit (s ! (p + 5)) = Some d
    \<longrightarrow> parse_string_loop s p acc
          = parse_string_loop s (p + 6) (acc @ encode_utf8 (of_nat (a * 4096 + b * 256 + c * 16 + d))))
   \<and> (q + 6 \<le> length t \<and> t ! q = CHR 0x5C \<and> t ! (q + 1) = CHR ''u''
      \<and> i < 4 \<and> hex_digit (t ! (q + 2 + i)) = None
    \<longrightarrow> is_ParseError (parse_string_loop t q acc'))
   \<and> (n < 65536 \<longrightarrow> encode_utf8 (of_nat n) =
        (if n \<le> 0x7F then [char_of n]
         else if n \<le> 0x7FF then [char_of (0xC0 + n div 64), char_of (0x80 + n mod 64)]
         else [char_of (0xE0 + n div 4096), char_of (0x80 + n div 64 mod 64),
               char_of (0x80 + n mod 64)]))
   \<and> hex_digit (CHR ''0'') = Some 0 \<and> hex_digit (CHR ''9'') = Some 9
   \<and> hex_digit (CHR ''a'') = Some 10 \<and> hex_digit (CHR ''A'') = Some 10
   \<and> hex_digit (CHR ''f'') = Some 15 \<and> hex_digit (CHR ''F'') = Some 15
   \<and> hex_digit (CHR ''g'') = None
   \<and> parse_string_loop ([CHR 0x22, CHR 0x5C] @ ''u0041'' @ [CHR 0x22]) 1 [] = Inr (''A'', 8)
   \<and> parse_string_loop ([CHR 0x22, CHR 0x5C] @ ''ud83d'' @ [CHR 0x5C] @ ''uDE00'' @ [CHR 0x22]) 1 []
       = Inr ([CHR 0xED, CHR 0xA0, CHR 0xBD, CHR 0xED, CHR 0xB8, CHR 0x80], 14)
   \<and> parse_string ([CHR 0x22, CHR 0x5C] @ ''u0041'' @ [CHR 0x22]) 0 = Inl NoReturn
   \<and> parse ([CHR 0x22, CHR 0x5C] @ ''u0041'' @ [CHR 0x22]) = Inl NoReturn"
proof -
  have step: "parse_string_loop s p acc
          = parse_string_loop s (p + 6) (acc @ encode_utf8 (of_nat (a * 4096 + b * 256 + c * 16 + d)))"
    if h: "p + 6 \<le> length s" "s ! p = CHR 0x5C" "s ! (p + 1) = CHR ''u''"
      "hex_digit (s ! (p + 2)) = Some a" "hex_digit (s ! (p + 3)) = Some b"
      "hex_digit (s ! (p + 4)) = Some c" "hex_digit (s ! (p + 5)) = Some d"
  proof -
    have i: "p + 2 + 1 = p + 3" "p + 2 + 1 + 1 = p + 4" "p + 2 + 1 + 1 + 1 = p + 5" by arith+
    have hb: "hex_digit (s ! (p + 2 + 1)) = Some b" unfolding i(1) by (rule h(5))
    have hc: "hex_digit (s ! (p + 2 + 1 + 1)) = Some c" unfolding i(2) by (rule h(6))
    have hd: "hex_digit (s ! (p + 2 + 1 + 1 + 1)) = Some d" unfolding i(3) by (rule h(7))
    have hl: "hex_loop s (p + 2) 4 0 = Inr (of_nat (a * 4096 + b * 256 + c * 16 + d))"
      using h(4) hb hc hd by (rule hex_loop_four)
    show ?thesis
      by (subst parse_string_loop.simps)
        (use h(1,2,3) hl in \<open>simp add: Let_def simple_escape_u add.commute\<close>)
  qed
  have bad: "is_ParseError (parse_string_loop t q acc')"
    if h: "q + 6 \<le> length t" "t ! q = CHR 0x5C" "t ! (q + 1) = CHR ''u''"
      "i < 4" "hex_digit (t ! (q + 2 + i)) = None"
  proof -
    obtain r where hl: "hex_loop t (q + 2) 4 0
        = Inl (ParseError ''Invalid hex digit in unicode escape'' r)"
      using hex_loop_invalid[OF h(5) h(4)] by blast
    show ?thesis
      by (subst parse_string_loop.simps)
        (use h(1,2,3) hl in \<open>simp add: Let_def simple_escape_u\<close>)
  qed
  have enc: "n < 65536 \<longrightarrow> encode_utf8 (of_nat n) =
        (if n \<le> 0x7F then [char_of n]
         else if n \<le> 0x7FF then [char_of (0xC0 + n div 64), char_of (0x80 + n mod 64)]
         else [char_of (0xE0 + n div 4096), char_of (0x80 + n div 64 mod 64),
               char_of (0x80 + n mod 64)])"
    using encode_utf8_bytes by blast
  have hd: "hex_digit (CHR ''0'') = Some 0" "hex_digit (CHR ''9'') = Some 9"
    "hex_digit (CHR ''a'') = Some 10" "hex_digit (CHR ''A'') = Some 10"
    "hex_digit (CHR ''f'') = Some 15" "hex_digit (CHR ''F'') = Some 15"
    "hex_digit (CHR ''g'') = None"
    by (simp_all add: hex_digit_def)
  have l1: "parse_string_loop ([CHR 0x22, CHR 0x5C] @ ''u0041'' @ [CHR 0x22]) 1 [] = Inr (''A'', 8)"
    by code_simp
  have l2: "parse_string_loop ([CHR 0x22, CHR 0x5C] @ ''ud83d'' @ [CHR 0x5C] @ ''uDE00'' @ [CHR 0x22]) 1 []
       = Inr ([CHR 0xED, CHR 0xA0, CHR 0xBD, CHR 0xED, CHR 0xB8, CHR 0x80], 14)"
    by code_simp
  have p0: "parse_string ([CHR 0x22, CHR 0x5C] @ ''u0041'' @ [CHR 0x22]) 0 = Inl NoReturn"
    by code_simp
  have p1: "parse ([CHR 0x22, CHR 0x5C] @ ''u0041'' @ [CHR 0x22]) = Inl NoReturn"
    by code_simp
  show ?thesis
    using step bad by (intro conjI impI enc hd l1 l2 p0 p1) (simp_all only:)
qed

theorem unicode_escape_decoded_never_returned_witness:
  "parse_string_loop ([CHR 0x5C] @ ''u0041'' @ [CHR 0x22]) 0 ''x''
     = parse_string_loop ([CHR 0x5C] @ ''u0041'' @ [CHR 0x22]) 6 (''x'' @ encode_utf8 65)
   \<and> is_ParseError (parse_string_loop ([CHR 0x5C] @ ''u00g1'' @ [CHR 0x22]) 0 [])
   \<and> encode_utf8 0x20AC = [CHR 0xE2, CHR 0x82, CHR 0xAC]"
proof -
  have c: "[char_of (226::nat), char_of (130::nat), char_of (172::nat)] = [CHR 0xE2, CHR 0x82, CHR 0xAC]"
    by code_simp
  show ?thesis
    using unicode_escape_decoded_never_returned
      [where s = "[CHR 0x5C] @ ''u0041'' @ [CHR 0x22]" and p = 0 and a = 0 and b = 0 and c = 4
         and d = 1 and acc = "''x''" and t = "[CHR 0x5C] @ ''u00g1'' @ [CHR 0x22]" and q = 0
         and i = 2 and acc' = "[]" and n = "0x20AC"] c
    by (simp add: hex_digit_def)
qed

section \<open>Claims about the parser\<close>

text \<open>
  Every \<open>return\<close> of the parser is \<open>return value{x};\<close>, so \<open>parse\<close> ends in a ParseError
  or does not return (\<open>parse_no_result\<close>): it raises the errors of a text that is wrong
  before its first complete token, and on every other text it stops returning at the
  first token it has read.
\<close>

lemma null_text: "to_string JNull pretty = Inr ''null''"
  by (simp add: to_string_def serialize_value.simps type_of_def value_type_of_def)

text \<open>
  C2. The claim: for a value \<open>v\<close> without an integral number-tagged leaf (and without
  surrogate pairs), \<open>parse(render(v, false))\<close> is structurally equal to \<open>v\<close>. The code at
  \<open>v = null\<close>: it is rendered as \<open>null\<close>, on which \<open>parse\<close> does not return; no text is
  parsed to a value. Besides, at \<open>v = 1.5\<close> (number-tagged, not integral) the rendering is
  \<open>1\<close>, and an integer beyond \<open>2 ^ 53\<close> is rendered rounded to a double.
\<close>

theorem roundtrip_never_returns:
  "to_string JNull False = Inr ''null''
   \<and> parse ''null'' = Inl NoReturn
   \<and> parse t \<noteq> Inr v
   \<and> valof (Double 0x3FF8000000000000) = 3 / 2
   \<and> to_string (JNumber (Double 0x3FF8000000000000)) False = Inr ''1''
   \<and> parse ''1'' = Inl NoReturn
   \<and> to_string (JInteger 9007199254740993) False = Inr ''9007199254740992''"
proof -
  have n: "parse ''null'' = Inl NoReturn" by code_simp
  have r: "to_string (JNumber (Double 0x3FF8000000000000)) False = Inr ''1''"
    by (simp add: to_string_def serialize_value_JNumber double_examples show_int64_1)
  have p: "parse ''1'' = Inl NoReturn" by code_simp
  have w: "double_to_int64 (int64_to_double 9007199254740993) = Some 9007199254740992"
    by (simp add: double_to_int64_widened round53_def bit_length.simps)
  have s: "show_int64 9007199254740992 = ''9007199254740992''"
    by (simp add: show_int64_def show_nat.simps digit_char_def)
  have r2: "to_string (JInteger 9007199254740993) False = Inr ''9007199254740992''"
    by (simp add: to_string_def serialize_value_JInteger w s)
  show ?thesis
    using n r p r2 parse_returns_nothing[of t v] by (simp add: double_examples null_text)
qed

text \<open>
  C3. The claim: \<open>parse(render(v, true))\<close> and \<open>parse(render(v, false))\<close> are the same
  tree. The code at the array \<open>v = [true]\<close>: the pretty text has the element on a line
  of its own, indented by two spaces, the compact text is \<open>[true]\<close>, and \<open>parse\<close> returns on
  neither: there is no tree to compare.
\<close>

theorem pretty_reparse_never_returns:
  "to_string (JArray [JBoolean True]) True = Inr (''['' @ [CHR 0x0A] @ ''  true'' @ [CHR 0x0A] @ '']'')
   \<and> to_string (JArray [JBoolean True]) False = Inr ''[true]''
   \<and> parse (''['' @ [CHR 0x0A] @ ''  true'' @ [CHR 0x0A] @ '']'') = Inl NoReturn
   \<and> parse ''[true]'' = Inl NoReturn
   \<and> parse t \<noteq> Inr v"
proof -
  have a: "to_string (JArray [JBoolean True]) True
      = Inr (''['' @ [CHR 0x0A] @ ''  true'' @ [CHR 0x0A] @ '']'')"
    by (simp add: to_string_def serialize_value.simps type_of_def value_type_of_def
        separator_def write_indent_def write_newline_def numeral_2_eq_2)
  have b: "to_string (JArray [JBoolean True]) False = Inr ''[true]''"
    by (simp add: to_string_def serialize_value.simps type_of_def value_type_of_def
        separator_def write_indent_def write_newline_def)
  have c: "parse (''['' @ [CHR 0x0A] @ ''  true'' @ [CHR 0x0A] @ '']'') = Inl NoReturn" by code_simp
  have d: "parse ''[true]'' = Inl NoReturn" by code_simp
  show ?thesis
    using a b c d parse_returns_nothing[of t v] by simp
qed

text \<open>
  C4. The claim: a text whose first value token is a number with a leading zero and
  further digits fails with a ParseError. The code at \<open>012\<close>: \<open>parse_number\<close> reads the
  \<open>0\<close>, leaves the cursor at the \<open>1\<close> and does not return from \<open>return value{result};\<close>,
  so the check for characters after the value is never reached and no ParseError is raised.
  The same at \<open>-012\<close> and inside an array or an object.
\<close>

theorem leading_zero_never_returns:
  "parse ''012'' = Inl NoReturn
   \<and> \<not> is_ParseError (parse ''012'')
   \<and> parse_number ''012'' 0 = Inl NoReturn
   \<and> parse ''-012'' = Inl NoReturn
   \<and> parse ''[012]'' = Inl NoReturn
   \<and> parse ''{\"a\":012}'' = Inl NoReturn"
proof -
  have a: "parse ''012'' = Inl NoReturn" by code_simp
  have b: "parse_number ''012'' 0 = Inl NoReturn" by code_simp
  have c: "parse ''-012'' = Inl NoReturn" by code_simp
  have d: "parse ''[012]'' = Inl NoReturn" by code_simp
  have e: "parse ''{\"a\":012}'' = Inl NoReturn" by code_simp
  show ?thesis using a b c d e by simp
qed

section \<open>Claims about objects\<close>

lemma emplace_keys: "fst ` set (emplace k v m) = insert k (fst ` set m)"
proof (induction m)
  case Nil
  show ?case by simp
next
  case (Cons a m)
  obtain k' v' where a: "a = (k', v')" by (cases a)
  show ?case by (simp add: a Cons.IH insert_commute)
qed

lemma emplace_sorted:
  "sorted_wrt (<) (map fst m) \<Longrightarrow> sorted_wrt (<) (map fst (emplace k v m))"
proof (induction m)
  case Nil
  then show ?case by simp
next
  case (Cons a m)
  obtain k' v' where a: "a = (k', v')" by (cases a)
  have s: "sorted_wrt (<) (map fst m)" and lt: "\<forall>x\<in>set m. k' < fst x"
    using Cons.prems by (simp_all add: a)
  have "\<forall>x\<in>fst ` set (emplace k v m). k' < x" if "k' < k"
    using lt that by (simp add: emplace_keys)
  then show ?case
    using Cons.IH[OF s] Cons.prems by (auto simp: a)
qed

lemma emplace_map_of:
  assumes "sorted_wrt (<) (map fst m)"
  shows "map_of (emplace k v m) = (case map_of m k of None \<Rightarrow> (map_of m)(k \<mapsto> v) | Some x \<Rightarrow> map_of m)"
  using assms
proof (induction m)
  case Nil
  then show ?case by simp
next
  case (Cons a m)
  obtain k' v' where a: "a = (k', v')" by (cases a)
  have s: "sorted_wrt (<) (map fst m)" and lt: "\<forall>x\<in>set m. k' < fst x"
    using Cons.prems by (simp_all add: a)
  show ?case
  proof (cases "k < k'")
    case True
    have "k \<notin> fst ` set m" using lt True by (auto dest: less_trans)
    then have "map_of m k = None" by (simp add: map_of_eq_None_iff)
    moreover have "k \<noteq> k'" using True by simp
    ultimately show ?thesis using True by (simp add: a)
  next
    case False
    show ?thesis
    proof (cases "k = k'")
      case True
      then show ?thesis by (simp add: a)
    next
      case ne: False
      then show ?thesis
        using False Cons.IH[OF s] by (auto simp: a fun_upd_twist split: option.splits)
    qed
  qed
qed

text \<open>The members of an object text, inserted in their order into the empty \<open>result\<close>.\<close>

lemma emplace_all:
  assumes "sorted_wrt (<) (map fst m)"
  shows "sorted_wrt (<) (map fst (foldl (\<lambda>m (k, v). emplace k v m) m kvs))
       \<and> map_of (foldl (\<lambda>m (k, v). emplace k v m) m kvs) = map_of (m @ kvs)"
  using assms
proof (induction kvs arbitrary: m)
  case Nil
  then show ?case by simp
next
  case (Cons a kvs)
  obtain k v where a: "a = (k, v)" by (cases a)
  have s: "sorted_wrt (<) (map fst (emplace k v m))" using Cons.prems by (rule emplace_sorted)
  have "map_of (emplace k v m @ kvs) = map_of (m @ (k, v) # kvs)"
    by (rule ext) (simp add: emplace_map_of[OF Cons.prems] map_add_def split: option.splits)
  then show ?case using Cons.IH[OF s] by (simp add: a)
qed



text \<open>
  C8. The claim: an object is iterated and rendered in ascending key order, whatever the
  order of the pairs in the source text or of their insertion; \<open>parse\<close> of
  \<open>{"b":1,"a":2}\<close> iterates and renders \<open>a\<close> before \<open>b\<close>. The order is as claimed: members
  inserted in any order are held in ascending key order, and \<open>serialize_object\<close> writes them
  in the order they are held. But \<open>parse\<close> does not return on \<open>{"b":1,"a":2}\<close>, so
  there is no object to iterate or render.
\<close>

theorem sorted_keys_never_parsed:
  "parse ''{\"b\":1,\"a\":2}'' = Inl NoReturn
   \<and> sorted_wrt (<) (map fst (foldl (\<lambda>m (k, v). emplace k v m) [] kvs))
   \<and> fst ` set (foldl (\<lambda>m (k, v). emplace k v m) [] kvs) = fst ` set kvs
   \<and> emplace ''a'' (JInteger 2) (emplace ''b'' (JInteger 1) [])
       = [(''a'', JInteger 2), (''b'', JInteger 1)]
   \<and> to_string (JObject [(''a'', JInteger 2), (''b'', JInteger 1)]) False
       = Inr ''{\"a\":2,\"b\":1}''"
proof -
  have p: "parse ''{\"b\":1,\"a\":2}'' = Inl NoReturn" by code_simp
  have s: "sorted_wrt (<) (map fst (foldl (\<lambda>m (k, v). emplace k v m) [] kvs))"
    using emplace_all[of "[]" kvs] by simp
  have "fst ` set (foldl (\<lambda>m (k, v). emplace k v m) m kvs) = fst ` set m \<union> fst ` set kvs" for m
  proof (induction kvs arbitrary: m)
    case Nil
    show ?case by simp
  next
    case (Cons a kvs)
    obtain k v where a: "a = (k, v)" by (cases a)
    show ?case by (simp add: a Cons.IH emplace_keys)
  qed
  then have k: "fst ` set (foldl (\<lambda>m (k, v). emplace k v m) [] kvs) = fst ` set kvs"
    by simp
  have e: "emplace ''a'' (JInteger 2) (emplace ''b'' (JInteger 1) [])
       = [(''a'', JInteger 2), (''b'', JInteger 1)]"
    by code_simp
  have i: "double_to_int64 (int64_to_double 1) = Some 1" "double_to_int64 (int64_to_double 2) = Some 2"
    by (simp_all add: double_to_int64_widened round53_def bit_length.simps)
  have n: "show_int64 2 = ''2''"
    by (simp add: show_int64_def show_nat.simps digit_char_def)
  have t: "to_string (JObject [(''a'', JInteger 2), (''b'', JInteger 1)]) False
       = Inr ''{\"a\":2,\"b\":1}''"
    by (simp add: to_string_def serialize_value.simps[of _ _ _ "JObject _"] serialize_value_JInteger
        i n show_int64_1 type_of_def value_type_of_def separator_def write_indent_def
        write_newline_def write_space_def serialize_string_def escape_char_def)
  show ?thesis by (intro conjI p s k e t)
qed

end
